theory Spec2Isabelle
  imports Main "HOL-Library.AList"
begin

section \<open>The Hermes notification client: stream connection and event dispatch\<close>

text \<open>
  A shallow embedding of the class \<open>HermesClient\<close> of hermes-client.js: its
  constructor, \<open>connectSSE\<close> with the three handlers it installs on the EventSource,
  \<open>disconnectSSE\<close>, \<open>on\<close>, \<open>off\<close>, \<open>emit\<close> and \<open>getStatus\<close>. The request/response
  methods (\<open>sendNotification\<close> and the like) do not touch the state modelled here.

  JavaScript values are modelled as far as the code looks at them: numbers are integers
  (no NaN, no fractions), a string-or-null field is a \<open>string option\<close>, and the
  configuration object has the types of the TypeScript declarations. Of a call of
  \<open>this.log\<close> the message is kept, not the objects logged with it; the line the
  constructor logs is left out.
\<close>

subsection \<open>Values\<close>

datatype jsval =
    JUndefined
  | JNull
  | JBool bool
  | JNumber int
  | JString string
  | JArray "jsval list"
  | JObject "(string \<times> jsval) list"

datatype error = Error string | TypeError string

text \<open>A function object is known by its identity only.\<close>

type_synonym callback = nat

text \<open>
  What an operation does that is not a change of the state: a line written by
  \<open>this.log\<close> (only when \<open>debug\<close> is on), a call of \<open>emit\<close>, a call of a
  subscriber together with what the subscriber did in turn before it returned or threw,
  \<open>new EventSource(url)\<close>, \<open>eventSource.close()\<close> and \<open>setTimeout\<close>.
\<close>

datatype out =
    Log string
  | Publish string jsval
  | Invoke string callback jsval "out list"
  | New nat string
  | Close nat
  | SetTimeout int string

subsection \<open>The client object and the runtime it acts on\<close>

text \<open>The argument of \<open>new HermesClient(config)\<close>; \<open>None\<close> is a missing (or null) option.\<close>

record config =
  cfg_baseUrl :: "string option"
  cfg_appToken :: "string option"
  cfg_profileToken :: "string option"
  cfg_userId :: "string option"
  cfg_timeout :: "int option"
  cfg_debug :: "bool option"
  cfg_sseEnabled :: "bool option"
  cfg_reconnectDelay :: "int option"
  cfg_maxReconnectAttempts :: "int option"

text \<open>
  An EventSource object: the url it was opened on, the \<open>userId\<close> its three handlers
  closed over, and whether \<open>close()\<close> has been called on it.
\<close>

record transport =
  es_url :: string
  es_user :: string
  es_closed :: bool

text \<open>
  The fields of the client, then the runtime: every EventSource created so far (a handle
  is an index into \<open>sources\<close>) and the pending \<open>setTimeout\<close> callbacks, each the delay
  and the \<open>userId\<close> of \<open>() => this.connectSSE(userId)\<close>.
\<close>

record world =
  baseUrl :: string
  appToken :: "string option"
  profileToken :: "string option"
  userId :: "string option"
  timeout :: int
  debug :: bool
  sseEnabled :: bool
  reconnectDelay :: int
  maxReconnectAttempts :: int
  eventSource :: "nat option"
  reconnectAttempts :: int
  isConnected :: bool
  listeners :: "(string \<times> callback list) list"
  sources :: "transport list"
  timers :: "(int \<times> string) list"

text \<open>
  Application code: whether calling the function \<open>callback\<close> with \<open>data\<close> threw
  (\<open>True\<close>), what it did, and the world it left.
\<close>

type_synonym app = "callback \<Rightarrow> jsval \<Rightarrow> world \<Rightarrow> bool \<times> out list \<times> world"

text \<open>An operation returns the exception it threw, if any, what it did, and the world.\<close>

type_synonym result = "error option \<times> out list \<times> world"

subsection \<open>Truthiness and defaults\<close>

definition truthy :: "string option \<Rightarrow> bool" where
  "truthy v = (case v of None \<Rightarrow> False | Some s \<Rightarrow> s \<noteq> [])"

text \<open>\<open>v || d\<close> for a string, for a string defaulting to null, for a number, for a flag.\<close>

definition or_string :: "string option \<Rightarrow> string \<Rightarrow> string" where
  "or_string v d = (case v of None \<Rightarrow> d | Some s \<Rightarrow> if s = [] then d else s)"

definition or_null :: "string option \<Rightarrow> string option" where
  "or_null v = (case v of None \<Rightarrow> None | Some s \<Rightarrow> if s = [] then None else Some s)"

definition or_number :: "int option \<Rightarrow> int \<Rightarrow> int" where
  "or_number v d = (case v of None \<Rightarrow> d | Some n \<Rightarrow> if n = 0 then d else n)"

definition or_false :: "bool option \<Rightarrow> bool" where
  "or_false v = (case v of None \<Rightarrow> False | Some b \<Rightarrow> b)"

text \<open>\<open>v !== false\<close>\<close>

definition not_false :: "bool option \<Rightarrow> bool" where
  "not_false v = (case v of None \<Rightarrow> True | Some b \<Rightarrow> b)"

subsection \<open>The constructor\<close>

definition HermesClient :: "config \<Rightarrow> world" where
  "HermesClient config =
    \<lparr> baseUrl = or_string (cfg_baseUrl config) ''http://localhost:8000'',
      appToken = or_null (cfg_appToken config),
      profileToken = or_null (cfg_profileToken config),
      userId = or_null (cfg_userId config),
      timeout = or_number (cfg_timeout config) 30000,
      debug = or_false (cfg_debug config),
      sseEnabled = not_false (cfg_sseEnabled config),
      reconnectDelay = or_number (cfg_reconnectDelay config) 5000,
      maxReconnectAttempts = or_number (cfg_maxReconnectAttempts config) 10,
      eventSource = None,
      reconnectAttempts = 0,
      isConnected = False,
      listeners =
        [(''notification'', []), (''connected'', []), (''disconnected'', []),
         (''error'', []), (''unreadCount'', [])],
      sources = [],
      timers = [] \<rparr>"

subsection \<open>Logging\<close>

definition log :: "world \<Rightarrow> string \<Rightarrow> out list" where
  "log w message = (if debug w then [Log message] else [])"

text \<open>A number inside a template literal.\<close>

function digits :: "int \<Rightarrow> string" where
  "digits n =
    (if n < 10 then [''0123456789'' ! nat n]
     else digits (n div 10) @ [''0123456789'' ! nat (n mod 10)])"
  by pat_completeness auto
termination
  by (relation "measure nat") auto

definition show_int :: "int \<Rightarrow> string" where
  "show_int i = (if i < 0 then CHR ''-'' # digits (- i) else digits i)"

subsection \<open>The subscription registry\<close>

text \<open>
  \<open>this.listeners\<close> is an object literal, so \<open>this.listeners[event]\<close> is the array
  stored under \<open>event\<close>, or a function or object inherited from \<open>Object.prototype\<close>
  (truthy, and without \<open>push\<close>, \<open>indexOf\<close> or \<open>forEach\<close>), or \<open>undefined\<close>.
\<close>

datatype slot = Absent | Inherited | Array "callback list"

definition object_prototype_keys :: "string list" where
  "object_prototype_keys =
    [''constructor'', ''__defineGetter__'', ''__defineSetter__'', ''hasOwnProperty'',
     ''__lookupGetter__'', ''__lookupSetter__'', ''isPrototypeOf'',
     ''propertyIsEnumerable'', ''toString'', ''valueOf'', ''__proto__'',
     ''toLocaleString'']"

definition lookup :: "(string \<times> callback list) list \<Rightarrow> string \<Rightarrow> slot" where
  "lookup object key =
    (case map_of object key of
       Some a \<Rightarrow> Array a
     | None \<Rightarrow> if key \<in> set object_prototype_keys then Inherited else Absent)"

text \<open>\<open>a.indexOf(x)\<close>: the first index of \<open>x\<close>, or -1.\<close>

fun indexOf :: "callback list \<Rightarrow> callback \<Rightarrow> int" where
  "indexOf [] x = - 1"
| "indexOf (y # ys) x =
    (if y = x then 0 else (let i = indexOf ys x in if i < 0 then - 1 else i + 1))"

text \<open>\<open>a.splice(index, 1)\<close>\<close>

definition splice :: "nat \<Rightarrow> callback list \<Rightarrow> callback list" where
  "splice index a = take index a @ drop (Suc index) a"

definition on :: "string \<Rightarrow> callback \<Rightarrow> world \<Rightarrow> result" where
  "on event callback w =
    (let w1 = (if lookup (listeners w) event = Absent
               then w\<lparr>listeners := AList.update event [] (listeners w)\<rparr> else w)
     in case lookup (listeners w1) event of
          Array a \<Rightarrow>
            (None, log w1 (''Listener added for event: '' @ event),
             w1\<lparr>listeners := AList.update event (a @ [callback]) (listeners w1)\<rparr>)
        | _ \<Rightarrow> (Some (TypeError ''this.listeners[event].push is not a function''), [], w1))"

definition off :: "string \<Rightarrow> callback \<Rightarrow> world \<Rightarrow> result" where
  "off event callback w =
    (case lookup (listeners w) event of
       Absent \<Rightarrow> (None, [], w)
     | Inherited \<Rightarrow>
         (Some (TypeError ''this.listeners[event].indexOf is not a function''), [], w)
     | Array a \<Rightarrow>
         (let index = indexOf a callback
          in if index > - 1
             then (None, log w (''Listener removed for event: '' @ event),
                   w\<lparr>listeners := AList.update event (splice (nat index) a) (listeners w)\<rparr>)
             else (None, [], w)))"

text \<open>
  \<open>Array.prototype.forEach\<close> reads the length once and then visits the indices below
  it in order, looking each one up in the array as it is at that moment; an index that
  is no longer there is passed over. \<open>k\<close> is the index, \<open>n\<close> the number of indices
  still to visit. The body is the arrow function of \<open>emit\<close>: the call and its catch.
\<close>

fun forEach :: "app \<Rightarrow> string \<Rightarrow> jsval \<Rightarrow> nat \<Rightarrow> nat \<Rightarrow> world \<Rightarrow> out list \<times> world" where
  "forEach call event data k 0 w = ([], w)"
| "forEach call event data k (Suc n) w =
    (case lookup (listeners w) event of
       Array a \<Rightarrow>
         if k < length a then
           (let callback = a ! k;
                (threw, did, w1) = call callback data w;
                caught = (if threw then log w1 (''Error in '' @ event @ '' listener'') else []);
                (tr, w2) = forEach call event data (Suc k) n w1
            in (Invoke event callback data did # caught @ tr, w2))
         else forEach call event data (Suc k) n w
     | _ \<Rightarrow> forEach call event data (Suc k) n w)"

definition emit :: "app \<Rightarrow> string \<Rightarrow> jsval \<Rightarrow> world \<Rightarrow> result" where
  "emit call event data w =
    (case lookup (listeners w) event of
       Absent \<Rightarrow> (None, [Publish event data], w)
     | Inherited \<Rightarrow>
         (Some (TypeError ''this.listeners[event].forEach is not a function''), [], w)
     | Array a \<Rightarrow>
         (let (tr, w1) = forEach call event data 0 (length a) w
          in (None, Publish event data # tr, w1)))"

subsection \<open>The stream connection\<close>

definition close :: "nat \<Rightarrow> world \<Rightarrow> world" where
  "close h w =
    (if h < length (sources w)
     then w\<lparr>sources := (sources w)[h := (sources w ! h)\<lparr>es_closed := True\<rparr>]\<rparr>
     else w)"

definition disconnectSSE :: "app \<Rightarrow> world \<Rightarrow> result" where
  "disconnectSSE call w =
    (case eventSource w of
       None \<Rightarrow> (None, [], w)
     | Some h \<Rightarrow>
         (let w1 = (close h w)\<lparr>eventSource := None, isConnected := False\<rparr>;
              (x, tr, w2) =
                emit call ''disconnected'' (JObject [(''reason'', JString ''manual'')]) w1
          in (x, log w ''Disconnecting SSE'' @ Close h # tr, w2)))"

text \<open>The argument of \<open>connectSSE(userId = this.userId)\<close>: only \<open>undefined\<close> takes the default.\<close>

datatype arg = ArgUndefined | ArgNull | ArgString string

definition resolved :: "arg \<Rightarrow> world \<Rightarrow> string option" where
  "resolved a w =
    (case a of ArgUndefined \<Rightarrow> userId w | ArgNull \<Rightarrow> None | ArgString s \<Rightarrow> Some s)"

definition connectSSE :: "app \<Rightarrow> arg \<Rightarrow> world \<Rightarrow> result" where
  "connectSSE call a w =
    (let uid = resolved a w
     in if \<not> truthy uid then (Some (Error ''userId is required for SSE connection''), [], w)
        else if \<not> truthy (profileToken w)
        then (Some (Error ''profileToken is required for SSE connection''), [], w)
        else
          (let token = or_string (profileToken w) [];
               (x, tr, w1) =
                 (if eventSource w \<noteq> None
                  then (let (x, tr, w1) = disconnectSSE call w
                        in (x, log w ''SSE already connected, disconnecting first'' @ tr, w1))
                  else (None, [], w))
           in case x of
                Some e \<Rightarrow> (Some e, tr, w1)
              | None \<Rightarrow>
                  (let sseUrl = baseUrl w1 @ ''/sse/notifications/'' @ or_string uid []
                                  @ ''/?token='' @ token;
                       h = length (sources w1);
                       w2 = w1\<lparr>eventSource := Some h,
                               sources := sources w1
                                 @ [\<lparr>es_url = sseUrl, es_user = or_string uid [], es_closed = False\<rparr>]\<rparr>
                   in (None, tr @ log w1 (''Connecting to SSE'') @ [New h sseUrl], w2))))"

text \<open>The handlers \<open>connectSSE(userId)\<close> installs; \<open>u\<close> is the \<open>userId\<close> they closed over.\<close>

definition onopen :: "app \<Rightarrow> string \<Rightarrow> world \<Rightarrow> result" where
  "onopen call u w =
    (let w1 = w\<lparr>isConnected := True, reconnectAttempts := 0\<rparr>;
         (x, tr, w2) = emit call ''connected'' (JObject [(''userId'', JString u)]) w1
     in (x, log w ''SSE connection opened'' @ tr, w2))"

text \<open>
  \<open>data.key\<close> for the two keys the message handler reads, \<open>type\<close> and \<open>count\<close>: a
  TypeError on null, the field of an object, \<open>undefined\<close> on anything else.
\<close>

definition property :: "jsval \<Rightarrow> string \<Rightarrow> error + jsval" where
  "property data key =
    (case data of
       JNull \<Rightarrow> Inl (TypeError ''Cannot read properties of null'')
     | JUndefined \<Rightarrow> Inl (TypeError ''Cannot read properties of undefined'')
     | JObject members \<Rightarrow> Inr (case map_of members key of Some v \<Rightarrow> v | None \<Rightarrow> JUndefined)
     | _ \<Rightarrow> Inr JUndefined)"

text \<open>
  \<open>JSON_parse\<close> is the runtime's \<open>JSON.parse\<close>, \<open>None\<close> where it throws a SyntaxError.
  Everything in the handler is inside its \<open>try\<close>.
\<close>

definition onmessage :: "app \<Rightarrow> (string \<Rightarrow> jsval option) \<Rightarrow> string \<Rightarrow> world \<Rightarrow> result" where
  "onmessage call JSON_parse text w =
    (case JSON_parse text of
       None \<Rightarrow> (None, log w ''Error parsing SSE message'', w)
     | Some data \<Rightarrow>
         (case property data ''type'' of
            Inl e \<Rightarrow>
              (None, log w ''SSE message received'' @ log w ''Error parsing SSE message'', w)
          | Inr t \<Rightarrow>
              (let (x, tr, w1) =
                     (if t = JString ''notification'' then emit call ''notification'' data w
                      else if t = JString ''unread_count'' then
                        (case property data ''count'' of
                           Inl e \<Rightarrow> (Some e, [], w)
                         | Inr count \<Rightarrow> emit call ''unreadCount'' count w)
                      else if t = JString ''connected'' then emit call ''connected'' data w
                      else (None, [], w))
               in (None,
                   log w ''SSE message received'' @ tr
                     @ (if x \<noteq> None then log w1 ''Error parsing SSE message'' else []),
                   w1))))"

definition onerror :: "app \<Rightarrow> string \<Rightarrow> jsval \<Rightarrow> world \<Rightarrow> result" where
  "onerror call u err w =
    (let w1 = w\<lparr>isConnected := False\<rparr>;
         (x1, tr1, w2) = emit call ''error'' err w1
     in case x1 of
          Some e \<Rightarrow> (Some e, log w ''SSE error'' @ tr1, w2)
        | None \<Rightarrow>
            (let (x2, tr2, w3) =
                   emit call ''disconnected'' (JObject [(''reason'', JString ''error'')]) w2
             in case x2 of
                  Some e \<Rightarrow> (Some e, log w ''SSE error'' @ tr1 @ tr2, w3)
                | None \<Rightarrow>
                    if reconnectAttempts w3 < maxReconnectAttempts w3 then
                      (let w4 = w3\<lparr>reconnectAttempts := reconnectAttempts w3 + 1\<rparr>;
                           w5 = w4\<lparr>timers := timers w4 @ [(reconnectDelay w4, u)]\<rparr>
                       in (None,
                           log w ''SSE error'' @ tr1 @ tr2
                             @ log w4 (''Reconnecting in '' @ show_int (reconnectDelay w4)
                                 @ ''ms (attempt '' @ show_int (reconnectAttempts w4) @ '')'')
                             @ [SetTimeout (reconnectDelay w4) u],
                           w5))
                    else
                      (None,
                       log w ''SSE error'' @ tr1 @ tr2 @ log w3 ''Max reconnect attempts reached'',
                       w3)))"

record status =
  status_isConnected :: bool
  status_reconnectAttempts :: int
  status_hasEventSource :: bool

definition getStatus :: "world \<Rightarrow> status" where
  "getStatus w =
    \<lparr> status_isConnected = isConnected w,
      status_reconnectAttempts = reconnectAttempts w,
      status_hasEventSource = (eventSource w \<noteq> None) \<rparr>"

subsection \<open>The runtime: transport signals, timers, turns\<close>

text \<open>
  Everything runs on one thread, one turn after the other. A turn is a call of the
  application into the client, a signal of the transport on a handle, or a pending
  timer firing. An EventSource dispatches nothing once \<open>close()\<close> has been called on it.
  An exception that leaves a turn ends that turn only.
\<close>

datatype signal = Opened | Message string | Failed jsval

datatype turn =
    Connect arg
  | Disconnect
  | On string callback
  | Off string callback
  | Emit string jsval
  | Signal nat signal
  | Timeout nat

definition live :: "nat \<Rightarrow> world \<Rightarrow> bool" where
  "live h w = (h < length (sources w) \<and> \<not> es_closed (sources w ! h))"

definition deliver :: "app \<Rightarrow> (string \<Rightarrow> jsval option) \<Rightarrow> nat \<Rightarrow> signal \<Rightarrow> world \<Rightarrow> result" where
  "deliver call JSON_parse h s w =
    (if live h w then
       (case s of
          Opened \<Rightarrow> onopen call (es_user (sources w ! h)) w
        | Message text \<Rightarrow> onmessage call JSON_parse text w
        | Failed err \<Rightarrow> onerror call (es_user (sources w ! h)) err w)
     else (None, [], w))"

definition fire :: "app \<Rightarrow> nat \<Rightarrow> world \<Rightarrow> result" where
  "fire call i w =
    (if i < length (timers w) then
       connectSSE call (ArgString (snd (timers w ! i)))
         (w\<lparr>timers := take i (timers w) @ drop (Suc i) (timers w)\<rparr>)
     else (None, [], w))"

definition step :: "app \<Rightarrow> (string \<Rightarrow> jsval option) \<Rightarrow> turn \<Rightarrow> world \<Rightarrow> result" where
  "step call JSON_parse t w =
    (case t of
       Connect a \<Rightarrow> connectSSE call a w
     | Disconnect \<Rightarrow> disconnectSSE call w
     | On event callback \<Rightarrow> on event callback w
     | Off event callback \<Rightarrow> off event callback w
     | Emit event data \<Rightarrow> emit call event data w
     | Signal h s \<Rightarrow> deliver call JSON_parse h s w
     | Timeout i \<Rightarrow> fire call i w)"

fun run :: "app \<Rightarrow> (string \<Rightarrow> jsval option) \<Rightarrow> turn list \<Rightarrow> world \<Rightarrow> world" where
  "run call JSON_parse [] w = w"
| "run call JSON_parse (t # ts) w =
    run call JSON_parse ts (snd (snd (step call JSON_parse t w)))"

subsection \<open>Subscribers written against the public interface\<close>

text \<open>
  A subscriber that calls back into the client: a sequence of calls, ended by the first
  exception, its own or one the client throws to it. \<open>program code n\<close> runs the
  subscribers \<open>code\<close> on a stack that holds \<open>n\<close> nested subscriber calls; one more
  is the runtime's RangeError.
\<close>

datatype api =
    CallOn string callback
  | CallOff string callback
  | CallEmit string jsval
  | CallConnect arg
  | CallDisconnect
  | Throw

definition perform :: "app \<Rightarrow> api \<Rightarrow> world \<Rightarrow> result" where
  "perform call c w =
    (case c of
       CallOn event callback \<Rightarrow> on event callback w
     | CallOff event callback \<Rightarrow> off event callback w
     | CallEmit event data \<Rightarrow> emit call event data w
     | CallConnect a \<Rightarrow> connectSSE call a w
     | CallDisconnect \<Rightarrow> disconnectSSE call w
     | Throw \<Rightarrow> (Some (Error ''thrown by the subscriber''), [], w))"

fun body :: "app \<Rightarrow> api list \<Rightarrow> world \<Rightarrow> bool \<times> out list \<times> world" where
  "body call [] w = (False, [], w)"
| "body call (c # cs) w =
    (let (x, tr, w1) = perform call c w
     in if x = None
        then (let (threw, tr', w2) = body call cs w1 in (threw, tr @ tr', w2))
        else (True, tr, w1))"

fun program :: "(callback \<Rightarrow> api list) \<Rightarrow> nat \<Rightarrow> app" where
  "program code 0 callback data w = (True, [], w)"
| "program code (Suc n) callback data w = body (program code n) (code callback) w"

text \<open>Subscribers that do nothing.\<close>

definition idle :: app where
  "idle callback data w = (False, [], w)"

subsection \<open>Reading what an operation did\<close>

fun published :: "out list \<Rightarrow> (string \<times> jsval) list" where
  "published [] = []"
| "published (Publish event data # tr) = (event, data) # published tr"
| "published (x # tr) = published tr"

fun invoked :: "out list \<Rightarrow> (string \<times> callback \<times> jsval) list" where
  "invoked [] = []"
| "invoked (Invoke event callback data did # tr) = (event, callback, data) # invoked tr"
| "invoked (x # tr) = invoked tr"

fun scheduled :: "out list \<Rightarrow> (int \<times> string) list" where
  "scheduled [] = []"
| "scheduled (SetTimeout delay u # tr) = (delay, u) # scheduled tr"
| "scheduled (x # tr) = scheduled tr"

text \<open>The calls on the transport, in the order they were made.\<close>

fun transport_calls :: "out list \<Rightarrow> out list" where
  "transport_calls [] = []"
| "transport_calls (New h url # tr) = New h url # transport_calls tr"
| "transport_calls (Close h # tr) = Close h # transport_calls tr"
| "transport_calls (x # tr) = transport_calls tr"

text \<open>
  The four readers above read what the operation itself did. What the subscribers it
  called did in turn is \<open>within\<close>; \<open>everything\<close> is both, at any depth, in the order
  it happened.
\<close>

fun within :: "out list \<Rightarrow> out list" where
  "within [] = []"
| "within (Invoke event callback data did # tr) = did @ within tr"
| "within (x # tr) = within tr"

fun unfolded :: "out \<Rightarrow> out list" where
  "unfolded (Invoke event callback data did)
    = Invoke event callback data [] # concat (map unfolded did)"
| "unfolded x = [x]"

definition everything :: "out list \<Rightarrow> out list" where
  "everything tr = concat (map unfolded tr)"

text \<open>The turns of a run in which the transport's signal reached a handler.\<close>

definition is_failure :: "signal \<Rightarrow> bool" where
  "is_failure s = (case s of Failed err \<Rightarrow> True | _ \<Rightarrow> False)"

definition is_open :: "signal \<Rightarrow> bool" where
  "is_open s = (case s of Opened \<Rightarrow> True | _ \<Rightarrow> False)"

fun delivered ::
  "(signal \<Rightarrow> bool) \<Rightarrow> app \<Rightarrow> (string \<Rightarrow> jsval option) \<Rightarrow> turn list \<Rightarrow> world \<Rightarrow> nat" where
  "delivered p call JSON_parse [] w = 0"
| "delivered p call JSON_parse (t # ts) w =
    (case t of Signal h s \<Rightarrow> if live h w \<and> p s then 1 else 0 | _ \<Rightarrow> 0)
      + delivered p call JSON_parse ts (snd (snd (step call JSON_parse t w)))"

text \<open>Turns among which no pending timer fires.\<close>

definition no_timer_fires :: "turn list \<Rightarrow> bool" where
  "no_timer_fires ts = list_all (\<lambda>t. case t of Timeout i \<Rightarrow> False | _ \<Rightarrow> True) ts"

subsection \<open>What subscribers leave alone\<close>

text \<open>No subscriber changes \<open>f\<close> of the world.\<close>

definition keeps :: "(world \<Rightarrow> 'a) \<Rightarrow> app \<Rightarrow> bool" where
  "keeps f call = (\<forall>callback data w. f (snd (snd (call callback data w))) = f w)"

text \<open>
  What no public method changes once the client is constructed, unless a transport
  handler runs: the configuration, the reconnect counter and the pending timers.
\<close>

definition reserved ::
  "world \<Rightarrow> (string \<times> string option \<times> string option \<times> string option \<times> int \<times> bool \<times> bool)
     \<times> int \<times> int \<times> int \<times> (int \<times> string) list" where
  "reserved w =
    ((baseUrl w, appToken w, profileToken w, userId w, timeout w, debug w, sseEnabled w),
     reconnectDelay w, maxReconnectAttempts w, reconnectAttempts w, timers w)"

definition connection :: "world \<Rightarrow> nat option \<times> bool \<times> transport list" where
  "connection w = (eventSource w, isConnected w, sources w)"

definition counter :: "world \<Rightarrow> int \<times> int" where
  "counter w = (reconnectAttempts w, maxReconnectAttempts w)"

text \<open>The same subscribers, with every exception they throw swallowed inside them.\<close>

definition quiet :: "app \<Rightarrow> app" where
  "quiet call callback data w = (False, snd (call callback data w))"

text \<open>
  One publish leaves the callbacks it began with in place. \<open>a\<close> is the array of the
  event when the publish begins, \<open>rest\<close> the callbacks of \<open>a\<close> still to be called, each
  in the world the one before it left: every time \<open>emit\<close> moves on to the next of them,
  the array of the event still begins with \<open>a\<close>. No callback has removed one of them
  so far; callbacks added behind them since may have come and gone, and what the last
  callback does to the array is not looked at.
\<close>

fun undisturbed ::
  "app \<Rightarrow> string \<Rightarrow> jsval \<Rightarrow> callback list \<Rightarrow> callback list \<Rightarrow> world \<Rightarrow> bool" where
  "undisturbed call event data a [] w = True"
| "undisturbed call event data a (callback # rest) w =
    ((case lookup (listeners w) event of Array b \<Rightarrow> take (length a) b = a | _ \<Rightarrow> False)
     \<and> undisturbed call event data a rest (snd (snd (call callback data w))))"

text \<open>
  The connected flag is set only while a handle is held, and no EventSource other than
  the one held is still open.
\<close>

definition consistent :: "world \<Rightarrow> bool" where
  "consistent w =
    ((isConnected w \<longrightarrow> eventSource w \<noteq> None) \<and>
     (\<forall>h. live h w \<longrightarrow> eventSource w = Some h))"

text \<open>No handle is held, the flag is down and every EventSource is closed.\<close>

definition at_rest :: "world \<Rightarrow> bool" where
  "at_rest w = (eventSource w = None \<and> \<not> isConnected w \<and> (\<forall>h. \<not> live h w))"

text \<open>
  The connection after \<open>disconnectSSE\<close>: no handle, the flag down, the EventSource that
  was held closed.
\<close>

definition hang_up ::
  "nat option \<times> bool \<times> transport list \<Rightarrow> nat option \<times> bool \<times> transport list" where
  "hang_up c =
    (case c of
       (None, flag, s) \<Rightarrow> (None, flag, s)
     | (Some h, flag, s) \<Rightarrow>
         (None, False, if h < length s then s[h := (s ! h)\<lparr>es_closed := True\<rparr>] else s))"

text \<open>The connection of \<open>w'\<close> is that of \<open>w\<close>, or that of \<open>w\<close> hung up.\<close>

definition not_reopened :: "world \<Rightarrow> world \<Rightarrow> bool" where
  "not_reopened w w' =
    (connection w' = connection w \<or> connection w' = hang_up (connection w))"

text \<open>No subscriber creates an EventSource: at most it disconnects.\<close>

definition never_connects :: "app \<Rightarrow> bool" where
  "never_connects call =
    (\<forall>callback data w. not_reopened w (snd (snd (call callback data w))))"

text \<open>Subscribers that never call \<open>connectSSE\<close>.\<close>

definition never_calls_connect :: "(callback \<Rightarrow> api list) \<Rightarrow> bool" where
  "never_calls_connect code = (\<forall>callback a. CallConnect a \<notin> set (code callback))"

text \<open>
  How the connection of \<open>w'\<close> can differ from that of \<open>w\<close> when only the public
  methods have run in between: EventSources have been created and closed, none has been
  reopened; the connected flag has not been raised; and the handle is the one held
  before, or none, or that of an EventSource created since.
\<close>

definition follows :: "world \<Rightarrow> world \<Rightarrow> bool" where
  "follows w w' =
    (length (sources w) \<le> length (sources w')
     \<and> (\<forall>h. live h w' \<longrightarrow> live h w \<or> length (sources w) \<le> h)
     \<and> (isConnected w' \<longrightarrow> isConnected w)
     \<and> (case eventSource w' of
          None \<Rightarrow> True
        | Some h \<Rightarrow> eventSource w = Some h \<or> length (sources w) \<le> h))"

text \<open>Every subscriber leaves the connection so.\<close>

definition orderly :: "app \<Rightarrow> bool" where
  "orderly call = (\<forall>callback data w. follows w (snd (snd (call callback data w))))"

subsection \<open>Concrete clients and subscribers\<close>

definition no_options :: config where
  "no_options =
    \<lparr> cfg_baseUrl = None, cfg_appToken = None, cfg_profileToken = None, cfg_userId = None,
      cfg_timeout = None, cfg_debug = None, cfg_sseEnabled = None,
      cfg_reconnectDelay = None, cfg_maxReconnectAttempts = None \<rparr>"

definition receiver :: config where
  "receiver = no_options\<lparr>cfg_profileToken := Some ''tok'', cfg_userId := Some ''u1''\<rparr>"

text \<open>A \<open>JSON.parse\<close> for runs without messages, and one that knows a single text.\<close>

definition unparseable :: "string \<Rightarrow> jsval option" where
  "unparseable text = None"

definition parse_unread :: "string \<Rightarrow> jsval option" where
  \<open>parse_unread text =
    (if text = ''{"type":"unread_count","count":5}''
     then Some (JObject [(''type'', JString ''unread_count''), (''count'', JNumber 5)])
     else None)\<close>

text \<open>A client that is connected, its connection open.\<close>

definition online :: world where
  "online = run idle unparseable [Connect ArgUndefined, Signal 0 Opened] (HermesClient receiver)"

text \<open>Subscriber 0 calls \<open>connectSSE()\<close>; the others do nothing.\<close>

definition reconnecting :: "callback \<Rightarrow> api list" where
  "reconnecting callback = (if callback = 0 then [CallConnect ArgUndefined] else [])"

text \<open>Subscriber 0 unsubscribes itself from \<open>notification\<close>; subscriber 2 throws.\<close>

definition leaving :: "callback \<Rightarrow> api list" where
  "leaving callback =
    (if callback = 0 then [CallOff ''notification'' 0]
     else if callback = 2 then [Throw] else [])"

text \<open>A client with the given subscribers of \<open>notification\<close>, registered in that order.\<close>

definition subscribed :: "callback list \<Rightarrow> world" where
  "subscribed callbacks =
    run idle unparseable (map (On ''notification'') callbacks) (HermesClient receiver)"

text \<open>
  Subscriber 0 unsubscribes a function that is not subscribed and one from another
  event, and subscribes function 3 to \<open>notification\<close>; subscriber 1 subscribes
  function 6 to \<open>unreadCount\<close>.
\<close>

definition joining :: "callback \<Rightarrow> api list" where
  "joining callback =
    (if callback = 0
     then [CallOff ''notification'' 9, CallOff ''error'' 0, CallOn ''notification'' 3]
     else if callback = 1 then [CallOn ''unreadCount'' 6] else [])"

text \<open>
  Subscriber 2 subscribes function 5 to \<open>error\<close> and throws; subscriber 0
  unsubscribes itself from \<open>notification\<close> and throws; subscriber 1 subscribes
  function 6 to \<open>unreadCount\<close>.
\<close>

definition failing :: "callback \<Rightarrow> api list" where
  "failing callback =
    (if callback = 2 then [CallOn ''error'' 5, Throw]
     else if callback = 0 then [CallOff ''notification'' 0, Throw]
     else if callback = 1 then [CallOn ''unreadCount'' 6] else [])"

text \<open>
  A connected client, its connection open, with two subscribers of \<open>unreadCount\<close>:
  subscriber 5 throws, subscriber 4, registered after it, subscribes function 9 to
  \<open>notification\<close>.
\<close>

definition counting :: "callback \<Rightarrow> api list" where
  "counting callback =
    (if callback = 4 then [CallOn ''notification'' 9]
     else if callback = 5 then [Throw] else [])"

definition watching :: world where
  "watching =
    run (program counting 1) unparseable
      [On ''unreadCount'' 5, On ''unreadCount'' 4, Connect ArgUndefined, Signal 0 Opened]
      (HermesClient receiver)"

text \<open>
  A client after \<open>connectSSE()\<close> and one failure of its connection, so that one
  reconnect is pending; and the same client after \<open>disconnectSSE()\<close>.
\<close>

definition errored :: world where
  "errored =
    run idle unparseable [Connect ArgUndefined, Signal 0 (Failed JNull)] (HermesClient receiver)"

definition stopped :: world where
  "stopped = snd (snd (disconnectSSE idle errored))"

text \<open>
  The configuration \<open>{reconnectDelay: 10, maxReconnectAttempts: 2}\<close>; a client with it
  whose subscriber of \<open>error\<close> calls \<open>connectSSE()\<close>, connected; and the same client
  after two transport errors.
\<close>

definition retrying :: config where
  "retrying = receiver\<lparr>cfg_reconnectDelay := Some 10, cfg_maxReconnectAttempts := Some 2\<rparr>"

definition listening :: world where
  "listening =
    run (program reconnecting 2) unparseable [On ''error'' 0, Connect ArgUndefined]
      (HermesClient retrying)"

definition exhausted :: world where
  "exhausted =
    run (program reconnecting 2) unparseable
      [On ''error'' 0, Connect ArgUndefined, Signal 0 (Failed JNull), Signal 1 (Failed JNull)]
      (HermesClient retrying)"

text \<open>
  The same client after one transport error; when a message has arrived since; after
  \<open>disconnectSSE()\<close> then; and after a subscription since.
\<close>

definition failed :: world where
  "failed =
    run (program reconnecting 2) unparseable
      [On ''error'' 0, Connect ArgUndefined, Signal 0 (Failed JNull)] (HermesClient retrying)"

definition waiting :: world where
  "waiting = run (program reconnecting 2) unparseable [Signal 1 (Message ''ping'')] failed"

definition hung_up :: world where
  "hung_up = snd (snd (disconnectSSE (program reconnecting 2) waiting))"

definition resting :: world where
  "resting = run (program reconnecting 2) unparseable [On ''connected'' 7] hung_up"

section \<open>Properties\<close>

subsection \<open>What the operations write\<close>

lemma take_all_of: "take (length a) b = a \<Longrightarrow> length a \<le> length b"
proof -
  assume "take (length a) b = a"
  then have "length (take (length a) b) = length a" by simp
  then show ?thesis by simp
qed

lemma published_append: "published (a @ b) = published a @ published b"
  by (induction a rule: published.induct) simp_all

lemma invoked_append: "invoked (a @ b) = invoked a @ invoked b"
  by (induction a rule: invoked.induct) simp_all

lemma scheduled_append: "scheduled (a @ b) = scheduled a @ scheduled b"
  by (induction a rule: scheduled.induct) simp_all

lemma transport_calls_append:
  "transport_calls (a @ b) = transport_calls a @ transport_calls b"
  by (induction a rule: transport_calls.induct) simp_all

lemma log_silent:
  "published (log w m) = []" "invoked (log w m) = []" "scheduled (log w m) = []"
  "transport_calls (log w m) = []"
  by (simp_all add: log_def)

lemma lookup_own_events:
  "lookup l ''notification'' \<noteq> Inherited" "lookup l ''connected'' \<noteq> Inherited"
  "lookup l ''disconnected'' \<noteq> Inherited" "lookup l ''error'' \<noteq> Inherited"
  "lookup l ''unreadCount'' \<noteq> Inherited"
  by (simp_all add: lookup_def object_prototype_keys_def split: option.split)

lemma lookup_update: "lookup (AList.update k v l) k = Array v"
  by (simp add: lookup_def update_conv')

lemma forEach_silent:
  "published (fst (forEach call event data k n w)) = []"
  "scheduled (fst (forEach call event data k n w)) = []"
  "transport_calls (fst (forEach call event data k n w)) = []"
  by (induction n arbitrary: k w)
     (simp_all add: Let_def split_def published_append scheduled_append
        transport_calls_append log_silent split: slot.split)

lemma emit_returns:
  "lookup (listeners w) event \<noteq> Inherited \<Longrightarrow> fst (emit call event data w) = None"
  by (simp add: emit_def split_def Let_def split: slot.split)

lemma emit_published:
  "lookup (listeners w) event \<noteq> Inherited \<Longrightarrow>
    published (fst (snd (emit call event data w))) = [(event, data)]"
  by (simp add: emit_def split_def Let_def forEach_silent split: slot.split)

lemma emit_silent:
  "scheduled (fst (snd (emit call event data w))) = []"
  "transport_calls (fst (snd (emit call event data w))) = []"
  by (simp_all add: emit_def split_def Let_def forEach_silent split: slot.split)

subsection \<open>What the operations keep\<close>

lemma keeps_idle: "keeps f idle"
  by (simp add: keeps_def idle_def)

lemma keeps_reserved:
  assumes "keeps reserved call"
  shows "keeps profileToken call" "keeps timers call" "keeps reconnectAttempts call"
    "keeps maxReconnectAttempts call" "keeps reconnectDelay call" "keeps baseUrl call"
    "keeps userId call" "keeps debug call"
  using assms by (simp_all add: keeps_def reserved_def)

lemma forEach_keeps: "keeps f call \<Longrightarrow> f (snd (forEach call event data k n w)) = f w"
  by (induction n arbitrary: k w) (simp_all add: Let_def split_def keeps_def split: slot.split)

lemma emit_keeps: "keeps f call \<Longrightarrow> f (snd (snd (emit call event data w))) = f w"
  by (simp add: emit_def split_def Let_def forEach_keeps split: slot.split)

lemma on_reserved: "reserved (snd (snd (on event callback w))) = reserved w"
  by (simp add: on_def Let_def reserved_def split: slot.split)

lemma off_reserved: "reserved (snd (snd (off event callback w))) = reserved w"
  by (simp add: off_def Let_def reserved_def split: slot.split)

lemma on_connection: "connection (snd (snd (on event callback w))) = connection w"
  by (simp add: on_def Let_def connection_def split: slot.split)

lemma off_connection: "connection (snd (snd (off event callback w))) = connection w"
  by (simp add: off_def Let_def connection_def split: slot.split)

lemma disconnectSSE_returns: "fst (disconnectSSE call w) = None"
  by (simp add: disconnectSSE_def Let_def split_def emit_returns lookup_own_events
      split: option.split)

lemma disconnectSSE_reserved:
  assumes "keeps reserved call"
  shows "reserved (snd (snd (disconnectSSE call w))) = reserved w"
proof (cases "eventSource w")
  case None
  then show ?thesis by (simp add: disconnectSSE_def)
next
  case (Some h)
  have "reserved ((close h w)\<lparr>eventSource := None, isConnected := False\<rparr>) = reserved w"
    by (simp add: reserved_def close_def)
  with Some assms show ?thesis
    by (simp add: disconnectSSE_def Let_def split_def emit_keeps)
qed

lemma connectSSE_reserved:
  assumes "keeps reserved call"
  shows "reserved (snd (snd (connectSSE call a w))) = reserved w"
proof -
  have "reserved (w1\<lparr>eventSource := e, sources := s\<rparr>) = reserved w1" for w1 e s
    by (simp add: reserved_def)
  with assms show ?thesis
    by (simp add: connectSSE_def Let_def split_def disconnectSSE_reserved disconnectSSE_returns)
qed

text \<open>
  A subscriber that only calls the public methods keeps what is reserved, however deep
  the calls nest.
\<close>

lemma perform_reserved:
  assumes "keeps reserved call"
  shows "reserved (snd (snd (perform call c w))) = reserved w"
  using assms
  by (cases c) (simp_all add: perform_def on_reserved off_reserved emit_keeps
      connectSSE_reserved disconnectSSE_reserved)

lemma body_reserved:
  assumes "keeps reserved call"
  shows "reserved (snd (snd (body call cs w))) = reserved w"
  by (induction cs arbitrary: w) (simp_all add: Let_def split_def perform_reserved [OF assms])

lemma program_reserved: "keeps reserved (program code n)"
proof (induction n)
  case 0
  show ?case by (simp add: keeps_def)
next
  case (Suc n)
  then show ?case by (simp add: keeps_def body_reserved)
qed

subsection \<open>Publishing\<close>

lemma forEach_quiet:
  "snd (forEach (quiet call) event data k n w) = snd (forEach call event data k n w)
   \<and> invoked (fst (forEach (quiet call) event data k n w))
       = invoked (fst (forEach call event data k n w))"
  by (induction n arbitrary: k w)
     (simp_all add: Let_def split_def quiet_def invoked_append log_silent split: slot.split)

text \<open>
  A publish that leaves the callbacks it began with in place calls each of them, in
  the order of the array, each in the world the one before it left.
\<close>

lemma forEach_undisturbed:
  "undisturbed call event data a (drop k a) w \<Longrightarrow> k + n = length a \<Longrightarrow>
    invoked (fst (forEach call event data k n w))
      = map (\<lambda>callback. (event, callback, data)) (drop k a)
    \<and> snd (forEach call event data k n w)
      = foldl (\<lambda>w callback. snd (snd (call callback data w))) w (drop k a)"
proof (induction n arbitrary: k w)
  case 0
  then show ?case by simp
next
  case (Suc n)
  from Suc.prems(2) have k: "k < length a" by simp
  then have d: "drop k a = a ! k # drop (Suc k) a"
    by (simp add: Cons_nth_drop_Suc)
  from Suc.prems(1) d obtain b where
    l: "lookup (listeners w) event = Array b" and t: "take (length a) b = a"
    and u: "undisturbed call event data a (drop (Suc k) a) (snd (snd (call (a ! k) data w)))"
    by (auto split: slot.splits)
  from take_all_of [OF t] k have kb: "k < length b" by simp
  from k have "take (length a) b ! k = b ! k" by simp
  with t have nth: "b ! k = a ! k" by simp
  from Suc.prems(2) have "Suc k + n = length a" by simp
  note ih = Suc.IH [OF u this]
  from l kb nth ih d show ?case
    by (simp add: Let_def split_def invoked_append log_silent)
qed

lemma emit_undisturbed:
  assumes "lookup (listeners w) event = Array a" and "undisturbed call event data a a w"
  shows "invoked (fst (snd (emit call event data w)))
      = map (\<lambda>callback. (event, callback, data)) a"
    and "snd (snd (emit call event data w))
      = foldl (\<lambda>w callback. snd (snd (call callback data w))) w a"
  using assms forEach_undisturbed [of call event data a 0 w "length a"]
  by (simp_all add: emit_def Let_def split_def)

text \<open>
  C3, as the code has it. Whatever the subscribers of an event throw, \<open>emit\<close>
  returns normally, and an exception changes nothing in the rest of the publish:
  \<open>emit\<close> calls the same subscribers, with the same effect on the world, as it does
  when each subscriber swallows its own exceptions. The subscribers registered when the
  publish began are all called, each with the payload, in the order of their
  registration, each in the world the one before it left, those registered after one
  that throws included, in every publish that leaves them in place. (\<open>emit\<close> walks
  the live array: a subscriber that unsubscribes one of them makes a later one be
  passed over, whether it throws or not.)
\<close>

theorem emit_isolates_throwing_subscriber:
  assumes "lookup (listeners w) event = Array a"
  shows "fst (emit call event data w) = None
    \<and> invoked (fst (snd (emit call event data w)))
        = invoked (fst (snd (emit (quiet call) event data w)))
    \<and> snd (snd (emit call event data w)) = snd (snd (emit (quiet call) event data w))
    \<and> (undisturbed call event data a a w \<longrightarrow>
          invoked (fst (snd (emit call event data w)))
            = map (\<lambda>callback. (event, callback, data)) a
        \<and> snd (snd (emit call event data w))
            = foldl (\<lambda>w callback. snd (snd (call callback data w))) w a)"
proof -
  from assms have "fst (emit call event data w) = None
    \<and> invoked (fst (snd (emit call event data w)))
        = invoked (fst (snd (emit (quiet call) event data w)))
    \<and> snd (snd (emit call event data w)) = snd (snd (emit (quiet call) event data w))"
    by (simp add: emit_def Let_def split_def forEach_quiet)
  with emit_undisturbed [OF assms] show ?thesis by blast
qed

text \<open>
  Subscriber 2 subscribes function 5 to \<open>error\<close> and throws; subscriber 1,
  registered after it, is called all the same: function 6 is subscribed to
  \<open>unreadCount\<close> when the publish is over.
\<close>

theorem emit_isolates_throwing_subscriber_witness:
  "lookup (listeners (subscribed [2, 1])) ''notification'' = Array [2, 1]
   \<and> undisturbed (program failing 1) ''notification'' JNull [2, 1] [2, 1] (subscribed [2, 1])
   \<and> fst (program failing 1 2 JNull (subscribed [2, 1]))
   \<and> fst (emit (program failing 1) ''notification'' JNull (subscribed [2, 1])) = None
   \<and> invoked (fst (snd (emit (program failing 1) ''notification'' JNull (subscribed [2, 1]))))
       = [(''notification'', 2, JNull), (''notification'', 1, JNull)]
   \<and> lookup (listeners (snd (snd (emit (program failing 1) ''notification'' JNull
        (subscribed [2, 1]))))) ''error'' = Array [5]
   \<and> lookup (listeners (snd (snd (emit (program failing 1) ''notification'' JNull
        (subscribed [2, 1]))))) ''unreadCount'' = Array [6]"
proof -
  have l: "lookup (listeners (subscribed [2, 1])) ''notification'' = Array [2, 1]"
    by code_simp
  have u: "undisturbed (program failing 1) ''notification'' JNull [2, 1] [2, 1]
      (subscribed [2, 1])"
    by code_simp
  have t: "fst (program failing 1 2 JNull (subscribed [2, 1]))"
    by code_simp
  have e: "lookup (listeners (foldl (\<lambda>w callback. snd (snd (program failing 1 callback JNull w)))
      (subscribed [2, 1]) [2, 1])) ''error'' = Array [5]"
    by code_simp
  have c: "lookup (listeners (foldl (\<lambda>w callback. snd (snd (program failing 1 callback JNull w)))
      (subscribed [2, 1]) [2, 1])) ''unreadCount'' = Array [6]"
    by code_simp
  from emit_isolates_throwing_subscriber [OF l, of "program failing 1" JNull] u
  have n: "fst (emit (program failing 1) ''notification'' JNull (subscribed [2, 1])) = None"
    and i: "invoked (fst (snd (emit (program failing 1) ''notification'' JNull
        (subscribed [2, 1]))))
      = map (\<lambda>callback. (''notification'', callback, JNull)) [2, 1]"
    and v: "snd (snd (emit (program failing 1) ''notification'' JNull (subscribed [2, 1])))
      = foldl (\<lambda>w callback. snd (snd (program failing 1 callback JNull w)))
          (subscribed [2, 1]) [2, 1]"
    by blast+
  from i have "invoked (fst (snd (emit (program failing 1) ''notification'' JNull
        (subscribed [2, 1]))))
      = [(''notification'', 2, JNull), (''notification'', 1, JNull)]"
    by simp
  with l u t n e c show ?thesis unfolding v by blast
qed

text \<open>
  C3 as stated fails: subscribers 0 and 1 are registered when the publish begins,
  subscriber 0 unsubscribes itself and throws, \<open>emit\<close> returns normally, and
  subscriber 1, the remaining one, is never called: nothing is subscribed to
  \<open>unreadCount\<close> when the publish is over.
\<close>

theorem emit_skips_after_throwing_unsubscriber:
  "lookup (listeners (subscribed [0, 1])) ''notification'' = Array [0, 1]
   \<and> failing 0 = [CallOff ''notification'' 0, Throw]
   \<and> fst (program failing 1 0 JNull (subscribed [0, 1]))
   \<and> fst (emit (program failing 1) ''notification'' JNull (subscribed [0, 1])) = None
   \<and> invoked (fst (snd (emit (program failing 1) ''notification'' JNull (subscribed [0, 1]))))
       = [(''notification'', 0, JNull)]
   \<and> lookup (listeners (snd (snd (emit (program failing 1) ''notification'' JNull
        (subscribed [0, 1]))))) ''unreadCount'' = Array []"
  by code_simp

text \<open>
  C4, as the code has it. \<open>emit\<close> walks the live array by index. In every publish
  that leaves the subscribers registered when it began in place until they have been
  called (no callback removes one of them; callbacks may add listeners, remove what was
  added since, remove listeners of other events, and throw), the subscribers called are
  exactly those registered when the publish began, each once, in registration order,
  each with the payload and in the world the one before it left.
\<close>

theorem emit_calls_registered_unless_removed:
  assumes "lookup (listeners w) event = Array a" and "undisturbed call event data a a w"
  shows "invoked (fst (snd (emit call event data w)))
      = map (\<lambda>callback. (event, callback, data)) a
    \<and> length (invoked (fst (snd (emit call event data w)))) = length a
    \<and> snd (snd (emit call event data w))
      = foldl (\<lambda>w callback. snd (snd (call callback data w))) w a"
  using emit_undisturbed [OF assms] by simp

text \<open>
  Subscriber 0 unsubscribes a function that is not subscribed and one from another
  event, and subscribes function 3 while it runs: 0 and 1 are called, 3 is registered
  afterwards and not called by this publish. And among subscribers one of which would
  unsubscribe itself, a publish to the others calls them all.
\<close>

theorem emit_calls_registered_unless_removed_witness:
  "lookup (listeners (subscribed [1, 3])) ''notification'' = Array [1, 3]
   \<and> leaving 0 = [CallOff ''notification'' 0]
   \<and> undisturbed (program leaving 1) ''notification'' JNull [1, 3] [1, 3] (subscribed [1, 3])
   \<and> invoked (fst (snd (emit (program leaving 1) ''notification'' JNull (subscribed [1, 3]))))
       = [(''notification'', 1, JNull), (''notification'', 3, JNull)]
   \<and> lookup (listeners (subscribed [0, 1])) ''notification'' = Array [0, 1]
   \<and> undisturbed (program joining 1) ''notification'' JNull [0, 1] [0, 1] (subscribed [0, 1])
   \<and> lookup (listeners (snd (snd (emit (program joining 1) ''notification'' JNull
        (subscribed [0, 1]))))) ''notification'' = Array [0, 1, 3]
   \<and> lookup (listeners (snd (snd (emit (program joining 1) ''notification'' JNull
        (subscribed [0, 1]))))) ''unreadCount'' = Array [6]
   \<and> invoked (fst (snd (emit (program joining 1) ''notification'' JNull (subscribed [0, 1]))))
       = [(''notification'', 0, JNull), (''notification'', 1, JNull)]"
proof -
  have l: "lookup (listeners (subscribed [0, 1])) ''notification'' = Array [0, 1]"
    by code_simp
  have u: "undisturbed (program joining 1) ''notification'' JNull [0, 1] [0, 1]
      (subscribed [0, 1])"
    by code_simp
  have a: "lookup (listeners (foldl (\<lambda>w callback. snd (snd (program joining 1 callback JNull w)))
      (subscribed [0, 1]) [0, 1])) ''notification'' = Array [0, 1, 3]"
    by code_simp
  have c: "lookup (listeners (foldl (\<lambda>w callback. snd (snd (program joining 1 callback JNull w)))
      (subscribed [0, 1]) [0, 1])) ''unreadCount'' = Array [6]"
    by code_simp
  from emit_calls_registered_unless_removed [OF l u]
  have i: "invoked (fst (snd (emit (program joining 1) ''notification'' JNull
        (subscribed [0, 1]))))
      = map (\<lambda>callback. (''notification'', callback, JNull)) [0, 1]"
    and v: "snd (snd (emit (program joining 1) ''notification'' JNull (subscribed [0, 1])))
      = foldl (\<lambda>w callback. snd (snd (program joining 1 callback JNull w)))
          (subscribed [0, 1]) [0, 1]"
    by blast+
  from i have i'': "invoked (fst (snd (emit (program joining 1) ''notification'' JNull
        (subscribed [0, 1]))))
      = [(''notification'', 0, JNull), (''notification'', 1, JNull)]"
    by simp
  have l': "lookup (listeners (subscribed [1, 3])) ''notification'' = Array [1, 3]"
    by code_simp
  have o: "leaving 0 = [CallOff ''notification'' 0]"
    by code_simp
  have u': "undisturbed (program leaving 1) ''notification'' JNull [1, 3] [1, 3]
      (subscribed [1, 3])"
    by code_simp
  from emit_calls_registered_unless_removed [OF l' u']
  have "invoked (fst (snd (emit (program leaving 1) ''notification'' JNull
        (subscribed [1, 3]))))
      = map (\<lambda>callback. (''notification'', callback, JNull)) [1, 3]"
    by blast
  then have i': "invoked (fst (snd (emit (program leaving 1) ''notification'' JNull
        (subscribed [1, 3]))))
      = [(''notification'', 1, JNull), (''notification'', 3, JNull)]"
    by simp
  from l' o u' i' l u a c i'' show ?thesis unfolding v by blast
qed

text \<open>
  C4 as stated fails: subscribers 0 and 1 are registered when the publish begins,
  subscriber 0 unsubscribes itself while it runs, and subscriber 1 is never called.
\<close>

theorem emit_skips_after_self_removal:
  "lookup (listeners (subscribed [0, 1])) ''notification'' = Array [0, 1]
   \<and> leaving 0 = [CallOff ''notification'' 0]
   \<and> invoked (fst (snd (emit (program leaving 1) ''notification'' JNull (subscribed [0, 1]))))
       = [(''notification'', 0, JNull)]"
  by code_simp

subsection \<open>Connecting\<close>

text \<open>
  C7. \<open>connectSSE\<close> without a user identifier (neither the argument nor the configured
  one) or without a \<open>profileToken\<close> throws an Error that says which is missing, before it
  does anything: nothing is written, no EventSource is created, the world is the same.
\<close>

theorem connectSSE_rejects_missing_identity:
  assumes "\<not> truthy (resolved a w) \<or> \<not> truthy (profileToken w)"
  shows "connectSSE call a w =
    (Some (Error (if \<not> truthy (resolved a w) then ''userId is required for SSE connection''
                  else ''profileToken is required for SSE connection'')), [], w)"
  using assms by (auto simp add: connectSSE_def Let_def)

theorem connectSSE_rejects_missing_identity_witness:
  "\<not> truthy (resolved ArgUndefined (HermesClient no_options))
   \<and> connectSSE idle ArgUndefined (HermesClient no_options)
       = (Some (Error ''userId is required for SSE connection''), [], HermesClient no_options)
   \<and> \<not> truthy (profileToken (HermesClient no_options))
   \<and> connectSSE idle (ArgString ''u1'') (HermesClient no_options)
       = (Some (Error ''profileToken is required for SSE connection''), [],
          HermesClient no_options)"
proof -
  have u: "\<not> truthy (resolved ArgUndefined (HermesClient no_options))" by code_simp
  have t: "\<not> truthy (profileToken (HermesClient no_options))" by code_simp
  have r: "truthy (resolved (ArgString ''u1'') (HermesClient no_options))" by code_simp
  from connectSSE_rejects_missing_identity [of ArgUndefined "HermesClient no_options" idle]
    connectSSE_rejects_missing_identity [of "ArgString ''u1''" "HermesClient no_options" idle]
    u t r
  show ?thesis by simp
qed

subsection \<open>Incoming messages\<close>

lemma within_append: "within (a @ b) = within a @ within b"
  by (induction a rule: within.induct) simp_all

lemma everything_append: "everything (a @ b) = everything a @ everything b"
  by (simp add: everything_def)

lemma everything_Cons: "everything (x # tr) = unfolded x @ everything tr"
  by (simp add: everything_def)

lemma log_within:
  "within (log w m) = []" "published (everything (log w m)) = []" "everything [] = []"
  by (simp_all add: log_def everything_def)

text \<open>
  Whatever is published while \<open>emit\<close> runs, after the event it publishes itself, is
  published by the subscribers it calls.
\<close>

lemma forEach_everything:
  "published (everything (fst (forEach call event data k n w)))
    = published (everything (within (fst (forEach call event data k n w))))"
  by (induction n arbitrary: k w)
     (simp_all add: Let_def split_def everything_Cons everything_append within_append
        published_append log_within everything_def [symmetric] split: slot.split)

lemma after_log:
  "within (log w m @ tr) = within tr" "invoked (log w m @ tr) = invoked tr"
  by (simp_all add: log_def)

lemma emit_everything:
  "published (everything (fst (snd (emit call event data w))))
    = published (fst (snd (emit call event data w)))
      @ published (everything (within (fst (snd (emit call event data w)))))"
  by (simp add: emit_def Let_def split_def everything_Cons forEach_everything forEach_silent
      log_within split: slot.split)

lemma property_count:
  "property data ''type'' = Inr (JString t) \<Longrightarrow> \<exists>count. property data ''count'' = Inr count"
  by (auto simp add: property_def split: jsval.splits)

text \<open>
  C8. A message that parses is dispatched on its \<open>type\<close>, and the handler returns
  normally. For \<open>notification\<close> the handler is one call of \<open>emit\<close>, of
  \<open>notification\<close> with the whole payload; for \<open>unread_count\<close> one call of \<open>emit\<close>
  of \<open>unreadCount\<close> with the \<open>count\<close> field; for \<open>connected\<close> one call of \<open>emit\<close>
  of \<open>connected\<close> with the payload: that event is the one event the handler
  publishes. For anything else it publishes nothing, calls no subscriber and leaves
  the world as it was. The event reaches the subscribers: in a publish that leaves the
  subscribers of the event in place, each of them is called with the payload, in
  registration order, and the world the handler leaves is the one they leave. Every
  other event published before the handler returns is published by a subscriber it
  called.
\<close>

theorem onmessage_dispatches_on_type:
  assumes "JSON_parse text = Some data"
  shows "fst (onmessage call JSON_parse text w) = None
    \<and> (property data ''type'' = Inr (JString ''notification'') \<longrightarrow>
         onmessage call JSON_parse text w
           = (None, log w ''SSE message received'' @ fst (snd (emit call ''notification'' data w)),
              snd (snd (emit call ''notification'' data w)))
         \<and> published (fst (snd (onmessage call JSON_parse text w))) = [(''notification'', data)])
    \<and> (property data ''type'' = Inr (JString ''unread_count'')
         \<and> property data ''count'' = Inr count \<longrightarrow>
         onmessage call JSON_parse text w
           = (None, log w ''SSE message received'' @ fst (snd (emit call ''unreadCount'' count w)),
              snd (snd (emit call ''unreadCount'' count w)))
         \<and> published (fst (snd (onmessage call JSON_parse text w))) = [(''unreadCount'', count)])
    \<and> (property data ''type'' = Inr (JString ''connected'') \<longrightarrow>
         onmessage call JSON_parse text w
           = (None, log w ''SSE message received'' @ fst (snd (emit call ''connected'' data w)),
              snd (snd (emit call ''connected'' data w)))
         \<and> published (fst (snd (onmessage call JSON_parse text w))) = [(''connected'', data)])
    \<and> (property data ''type'' \<noteq> Inr (JString ''notification'')
         \<and> property data ''type'' \<noteq> Inr (JString ''unread_count'')
         \<and> property data ''type'' \<noteq> Inr (JString ''connected'') \<longrightarrow>
         published (fst (snd (onmessage call JSON_parse text w))) = []
         \<and> invoked (fst (snd (onmessage call JSON_parse text w))) = []
         \<and> snd (snd (onmessage call JSON_parse text w)) = w)
    \<and> (published (fst (snd (onmessage call JSON_parse text w))) = [(event, payload)]
         \<and> lookup (listeners w) event = Array a
         \<and> undisturbed call event payload a a w \<longrightarrow>
         invoked (fst (snd (onmessage call JSON_parse text w)))
           = map (\<lambda>callback. (event, callback, payload)) a
         \<and> snd (snd (onmessage call JSON_parse text w))
           = foldl (\<lambda>w callback. snd (snd (call callback payload w))) w a)
    \<and> published (everything (fst (snd (onmessage call JSON_parse text w))))
        = published (fst (snd (onmessage call JSON_parse text w)))
          @ published (everything (within (fst (snd (onmessage call JSON_parse text w)))))"
proof -
  let ?r = "onmessage call JSON_parse text w"
  have one: "?r = (None, log w ''SSE message received'' @ fst (snd (emit call e d w)),
             snd (snd (emit call e d w)))
         \<and> published (fst (snd ?r)) = [(e, d)]"
    if "property data ''type'' = Inr (JString ''notification'') \<and> e = ''notification'' \<and> d = data
      \<or> property data ''type'' = Inr (JString ''unread_count'') \<and> e = ''unreadCount''
          \<and> property data ''count'' = Inr d
      \<or> property data ''type'' = Inr (JString ''connected'') \<and> e = ''connected'' \<and> d = data"
    for e d
    using assms that
    by (auto simp add: onmessage_def Let_def split_def emit_returns lookup_own_events
        published_append log_silent emit_published)
  have none: "published (fst (snd ?r)) = [] \<and> invoked (fst (snd ?r)) = [] \<and> snd (snd ?r) = w
      \<and> published (everything (fst (snd ?r))) = [] \<and> within (fst (snd ?r)) = []"
    if "property data ''type'' \<noteq> Inr (JString ''notification'')"
      "property data ''type'' \<noteq> Inr (JString ''unread_count'')"
      "property data ''type'' \<noteq> Inr (JString ''connected'')"
    using assms that
    by (simp add: onmessage_def Let_def split_def published_append invoked_append log_silent
        everything_append within_append log_within split: sum.split)
  have cases: "(\<exists>e d. ?r = (None, log w ''SSE message received'' @ fst (snd (emit call e d w)),
             snd (snd (emit call e d w))) \<and> published (fst (snd ?r)) = [(e, d)])
      \<or> (published (fst (snd ?r)) = [] \<and> published (everything (fst (snd ?r))) = []
          \<and> within (fst (snd ?r)) = [])"
  proof (cases "property data ''type'' = Inr (JString ''notification'')")
    case True
    with one [of "''notification''" data] show ?thesis by blast
  next
    case n: False
    show ?thesis
    proof (cases "property data ''type'' = Inr (JString ''unread_count'')")
      case True
      from property_count [OF True] obtain count' where "property data ''count'' = Inr count'"
        by blast
      with True one [of "''unreadCount''" count'] show ?thesis by blast
    next
      case u: False
      show ?thesis
      proof (cases "property data ''type'' = Inr (JString ''connected'')")
        case True
        with one [of "''connected''" data] show ?thesis by blast
      next
        case False
        with none n u show ?thesis by blast
      qed
    qed
  qed
  have reach: "invoked (fst (snd ?r)) = map (\<lambda>callback. (event, callback, payload)) a
         \<and> snd (snd ?r) = foldl (\<lambda>w callback. snd (snd (call callback payload w))) w a"
    if p: "published (fst (snd ?r)) = [(event, payload)]"
      and l: "lookup (listeners w) event = Array a"
      and u: "undisturbed call event payload a a w"
  proof -
    from cases p obtain e d where
      r: "?r = (None, log w ''SSE message received'' @ fst (snd (emit call e d w)),
             snd (snd (emit call e d w)))"
      and "published (fst (snd ?r)) = [(e, d)]"
      by auto
    with p have "e = event" "d = payload" by simp_all
    with r have r': "?r = (None, log w ''SSE message received''
        @ fst (snd (emit call event payload w)), snd (snd (emit call event payload w)))"
      by simp
    from emit_undisturbed [OF l u] show ?thesis
      unfolding r' by (simp add: after_log)
  qed
  have deep: "published (everything (fst (snd ?r)))
        = published (fst (snd ?r)) @ published (everything (within (fst (snd ?r))))"
  proof -
    from cases consider e d where
      "?r = (None, log w ''SSE message received'' @ fst (snd (emit call e d w)),
             snd (snd (emit call e d w)))"
      | "published (fst (snd ?r)) = []" "published (everything (fst (snd ?r))) = []"
        "within (fst (snd ?r)) = []"
      by blast
    then show ?thesis
    proof cases
      case 1
      show ?thesis
        unfolding 1
        by (simp add: everything_append published_append log_within log_silent
            after_log emit_everything)
    next
      case 2
      then show ?thesis by (simp add: log_within)
    qed
  qed
  have ret: "fst ?r = None"
    using assms by (simp add: onmessage_def Let_def split_def split: sum.split)
  have n: "property data ''type'' = Inr (JString ''notification'') \<longrightarrow>
      ?r = (None, log w ''SSE message received'' @ fst (snd (emit call ''notification'' data w)),
            snd (snd (emit call ''notification'' data w)))
      \<and> published (fst (snd ?r)) = [(''notification'', data)]"
    using one [of "''notification''" data] by blast
  have u: "property data ''type'' = Inr (JString ''unread_count'')
      \<and> property data ''count'' = Inr count \<longrightarrow>
      ?r = (None, log w ''SSE message received'' @ fst (snd (emit call ''unreadCount'' count w)),
            snd (snd (emit call ''unreadCount'' count w)))
      \<and> published (fst (snd ?r)) = [(''unreadCount'', count)]"
    using one [of "''unreadCount''" count] by blast
  have c: "property data ''type'' = Inr (JString ''connected'') \<longrightarrow>
      ?r = (None, log w ''SSE message received'' @ fst (snd (emit call ''connected'' data w)),
            snd (snd (emit call ''connected'' data w)))
      \<and> published (fst (snd ?r)) = [(''connected'', data)]"
    using one [of "''connected''" data] by blast
  have x: "property data ''type'' \<noteq> Inr (JString ''notification'')
      \<and> property data ''type'' \<noteq> Inr (JString ''unread_count'')
      \<and> property data ''type'' \<noteq> Inr (JString ''connected'') \<longrightarrow>
      published (fst (snd ?r)) = [] \<and> invoked (fst (snd ?r)) = [] \<and> snd (snd ?r) = w"
    using none by simp
  have s: "published (fst (snd ?r)) = [(event, payload)]
      \<and> lookup (listeners w) event = Array a
      \<and> undisturbed call event payload a a w \<longrightarrow>
      invoked (fst (snd ?r)) = map (\<lambda>callback. (event, callback, payload)) a
      \<and> snd (snd ?r) = foldl (\<lambda>w callback. snd (snd (call callback payload w))) w a"
    using reach by simp
  show ?thesis
    by (rule conjI [OF ret conjI [OF n conjI [OF u conjI [OF c conjI [OF x conjI [OF s deep]]]]]])
qed

text \<open>
  On a connected client with two subscribers of \<open>unreadCount\<close>, the first of which
  throws, the unread count 5 is published once, as \<open>unreadCount\<close>, both subscribers
  are called with 5, function 9 is subscribed to \<open>notification\<close> afterwards, and
  nothing else is published, by the handler or by a subscriber.
\<close>

theorem onmessage_dispatches_on_type_witness:
  \<open>status_isConnected (getStatus watching)
   \<and> parse_unread ''{"type":"unread_count","count":5}''
     = Some (JObject [(''type'', JString ''unread_count''), (''count'', JNumber 5)])
   \<and> step (program counting 1) parse_unread
        (Signal 0 (Message ''{"type":"unread_count","count":5}'')) watching
     = onmessage (program counting 1) parse_unread ''{"type":"unread_count","count":5}'' watching
   \<and> lookup (listeners watching) ''unreadCount'' = Array [5, 4]
   \<and> lookup (listeners watching) ''notification'' = Array []
   \<and> undisturbed (program counting 1) ''unreadCount'' (JNumber 5) [5, 4] [5, 4] watching
   \<and> fst (onmessage (program counting 1) parse_unread ''{"type":"unread_count","count":5}''
        watching) = None
   \<and> published (fst (snd (onmessage (program counting 1) parse_unread
        ''{"type":"unread_count","count":5}'' watching))) = [(''unreadCount'', JNumber 5)]
   \<and> invoked (fst (snd (onmessage (program counting 1) parse_unread
        ''{"type":"unread_count","count":5}'' watching)))
     = [(''unreadCount'', 5, JNumber 5), (''unreadCount'', 4, JNumber 5)]
   \<and> lookup (listeners (snd (snd (onmessage (program counting 1) parse_unread
        ''{"type":"unread_count","count":5}'' watching)))) ''notification'' = Array [9]
   \<and> published (everything (fst (snd (onmessage (program counting 1) parse_unread
        ''{"type":"unread_count","count":5}'' watching)))) = [(''unreadCount'', JNumber 5)]\<close>
proof -
  let ?m = \<open>''{"type":"unread_count","count":5}''\<close>
  let ?r = "onmessage (program counting 1) parse_unread ?m watching"
  have o: "status_isConnected (getStatus watching)" by code_simp
  have p: "parse_unread ?m
     = Some (JObject [(''type'', JString ''unread_count''), (''count'', JNumber 5)])"
    by code_simp
  have s: "step (program counting 1) parse_unread (Signal 0 (Message ?m)) watching = ?r"
    by code_simp
  have t: "property (JObject [(''type'', JString ''unread_count''), (''count'', JNumber 5)])
      ''type'' = Inr (JString ''unread_count'')"
    by code_simp
  have c: "property (JObject [(''type'', JString ''unread_count''), (''count'', JNumber 5)])
      ''count'' = Inr (JNumber 5)"
    by code_simp
  have l: "lookup (listeners watching) ''unreadCount'' = Array [5, 4]" by code_simp
  have n: "lookup (listeners watching) ''notification'' = Array []" by code_simp
  have u: "undisturbed (program counting 1) ''unreadCount'' (JNumber 5) [5, 4] [5, 4] watching"
    by code_simp
  have e: "lookup (listeners (foldl (\<lambda>w callback. snd (snd (program counting 1 callback
      (JNumber 5) w))) watching [5, 4])) ''notification'' = Array [9]"
    by code_simp
  have i: "published (everything (within (fst (snd ?r)))) = []"
    by code_simp
  note r = onmessage_dispatches_on_type [where JSON_parse = parse_unread
      and call = "program counting 1" and w = watching and count = "JNumber 5"
      and event = "''unreadCount''" and payload = "JNumber 5" and a = "[5, 4]", OF p]
  from r have ret: "fst ?r = None" by blast
  from r t c have pub: "published (fst (snd ?r)) = [(''unreadCount'', JNumber 5)]"
    by blast
  from r pub l u have
    inv: "invoked (fst (snd ?r)) = map (\<lambda>callback. (''unreadCount'', callback, JNumber 5)) [5, 4]"
    and v: "snd (snd ?r) = foldl (\<lambda>w callback. snd (snd (program counting 1 callback
      (JNumber 5) w))) watching [5, 4]"
    by blast+
  from r have "published (everything (fst (snd ?r)))
      = published (fst (snd ?r)) @ published (everything (within (fst (snd ?r))))"
    by blast
  with pub i have all: "published (everything (fst (snd ?r))) = [(''unreadCount'', JNumber 5)]"
    by simp
  from inv have inv': "invoked (fst (snd ?r))
     = [(''unreadCount'', 5, JNumber 5), (''unreadCount'', 4, JNumber 5)]"
    by simp
  from e have eff: "lookup (listeners (snd (snd ?r))) ''notification'' = Array [9]"
    unfolding v .
  from o p s l n u ret pub inv' eff all show ?thesis by blast
qed

text \<open>
  C9. A message that does not parse is dropped inside the handler: the handler returns
  normally, publishes nothing (no \<open>error\<close> either), and leaves the world, and with it
  the connection status, as it was.
\<close>

theorem onmessage_drops_unparseable:
  assumes "JSON_parse text = None"
  shows "onmessage call JSON_parse text w = (None, log w ''Error parsing SSE message'', w)
    \<and> published (fst (snd (onmessage call JSON_parse text w))) = []
    \<and> getStatus (snd (snd (onmessage call JSON_parse text w))) = getStatus w"
  using assms by (simp add: onmessage_def log_silent)

theorem onmessage_drops_unparseable_witness:
  \<open>parse_unread ''{"type":"unr'' = None
   \<and> step idle parse_unread (Signal 0 (Message ''{"type":"unr'')) online
       = onmessage idle parse_unread ''{"type":"unr'' online
   \<and> onmessage idle parse_unread ''{"type":"unr'' online = (None, [], online)\<close>
proof -
  have p: \<open>parse_unread ''{"type":"unr'' = None\<close> by code_simp
  have s: \<open>step idle parse_unread (Signal 0 (Message ''{"type":"unr'')) online
       = onmessage idle parse_unread ''{"type":"unr'' online\<close>
    by code_simp
  have l: "log online ''Error parsing SSE message'' = []" by code_simp
  from onmessage_drops_unparseable [where JSON_parse = parse_unread and call = idle
      and w = online, OF p] p s l
  show ?thesis by simp
qed

subsection \<open>One connection at a time\<close>

lemma hang_up_twice: "hang_up (hang_up c) = hang_up c"
  by (simp add: hang_up_def split: prod.split option.split)

lemma not_reopened_refl: "not_reopened w w"
  by (simp add: not_reopened_def)

lemma not_reopened_trans:
  "not_reopened w w1 \<Longrightarrow> not_reopened w1 w2 \<Longrightarrow> not_reopened w w2"
  by (auto simp add: not_reopened_def hang_up_twice)

lemma not_reopened_from:
  "connection v = connection w \<Longrightarrow> not_reopened v w' \<Longrightarrow> not_reopened w w'"
  by (simp add: not_reopened_def)

lemma not_reopened_to:
  "connection v = connection w' \<Longrightarrow> not_reopened w w' \<Longrightarrow> not_reopened w v"
  by (simp add: not_reopened_def)

lemma not_reopened_none:
  "eventSource w = None \<Longrightarrow> not_reopened w w' \<Longrightarrow> connection w' = connection w"
  by (auto simp add: not_reopened_def hang_up_def connection_def)

lemma forEach_not_reopened:
  assumes "never_connects call"
  shows "not_reopened w (snd (forEach call event data k n w))"
proof (induction n arbitrary: k w)
  case 0
  show ?case by (simp add: not_reopened_refl)
next
  case (Suc n)
  show ?case
  proof (cases "lookup (listeners w) event")
    case Absent
    with Suc show ?thesis by simp
  next
    case Inherited
    with Suc show ?thesis by simp
  next
    case (Array a)
    show ?thesis
    proof (cases "k < length a")
      case False
      with Array Suc show ?thesis by simp
    next
      case True
      from assms have "not_reopened w (snd (snd (call (a ! k) data w)))"
        by (simp add: never_connects_def)
      from not_reopened_trans [OF this Suc [of "snd (snd (call (a ! k) data w))" "Suc k"]]
      show ?thesis using Array True by (simp add: Let_def split_def)
    qed
  qed
qed

lemma emit_not_reopened:
  assumes "never_connects call"
  shows "not_reopened w (snd (snd (emit call event data w)))"
  by (simp add: emit_def Let_def split_def not_reopened_refl forEach_not_reopened [OF assms]
      split: slot.split)

lemma consistent_connection: "connection w' = connection w \<Longrightarrow> consistent w' = consistent w"
  by (simp add: consistent_def live_def connection_def)

lemma consistent_new: "consistent (HermesClient config)"
  by (simp add: consistent_def live_def HermesClient_def)

lemma consistent_hang_up:
  assumes c: "consistent w" and h: "connection w' = hang_up (connection w)"
  shows "at_rest w' \<or> connection w' = connection w"
proof (cases "eventSource w")
  case None
  with h show ?thesis by (simp add: hang_up_def connection_def)
next
  case (Some h0)
  with c have only: "\<And>h'. live h' w \<Longrightarrow> h' = h0" by (simp add: consistent_def)
  from h Some have e: "eventSource w' = None" "\<not> isConnected w'"
    and s: "sources w' = (if h0 < length (sources w)
        then (sources w)[h0 := (sources w ! h0)\<lparr>es_closed := True\<rparr>] else sources w)"
    by (simp_all add: hang_up_def connection_def)
  have "\<not> live h' w'" for h'
  proof
    assume "live h' w'"
    with s have "live h' w \<and> h' \<noteq> h0"
      by (auto simp add: live_def nth_list_update split: if_splits)
    with only show False by blast
  qed
  with e show ?thesis by (simp add: at_rest_def)
qed

lemma consistent_not_reopened:
  assumes "consistent w" and "not_reopened w w'"
  shows "consistent w'"
proof -
  from assms(2) consider "connection w' = connection w" | "connection w' = hang_up (connection w)"
    by (auto simp add: not_reopened_def)
  then show ?thesis
  proof cases
    case 1
    from consistent_connection [OF 1] assms(1) show ?thesis by simp
  next
    case 2
    from consistent_hang_up [OF assms(1) 2] consistent_connection [of w' w] assms(1)
    show ?thesis by (auto simp add: at_rest_def consistent_def)
  qed
qed

lemma disconnectSSE_connection:
  assumes "never_connects call"
  shows "connection (snd (snd (disconnectSSE call w)))
    = (case eventSource w of None \<Rightarrow> connection w | Some h \<Rightarrow> (None, False, sources (close h w)))"
proof (cases "eventSource w")
  case None
  then show ?thesis by (simp add: disconnectSSE_def)
next
  case (Some h)
  define w1 where "w1 = (close h w)\<lparr>eventSource := None, isConnected := False\<rparr>"
  have c: "connection w1 = (None, False, sources (close h w))"
    by (simp add: connection_def w1_def)
  have "eventSource w1 = None" by (simp add: w1_def)
  from not_reopened_none [OF this emit_not_reopened [OF assms]] c Some show ?thesis
    by (simp add: disconnectSSE_def Let_def split_def w1_def)
qed

lemma disconnectSSE_hangs_up:
  assumes "never_connects call"
  shows "connection (snd (snd (disconnectSSE call w))) = hang_up (connection w)"
  using disconnectSSE_connection [OF assms, of w]
  by (simp add: hang_up_def connection_def close_def split: option.split)

lemma disconnectSSE_at_rest:
  assumes "never_connects call" and "consistent w"
  shows "at_rest (snd (snd (disconnectSSE call w)))"
proof (cases "eventSource w")
  case None
  with assms(2) show ?thesis
    by (auto simp add: disconnectSSE_def at_rest_def consistent_def)
next
  case (Some h)
  from consistent_hang_up [OF assms(2) disconnectSSE_hangs_up [OF assms(1)]]
    disconnectSSE_connection [OF assms(1), of w] Some
  show ?thesis by (auto simp add: at_rest_def connection_def live_def)
qed

lemma disconnectSSE_transport_calls:
  "transport_calls (fst (snd (disconnectSSE call w)))
    = (case eventSource w of None \<Rightarrow> [] | Some h \<Rightarrow> [Close h])"
  by (simp add: disconnectSSE_def Let_def split_def transport_calls_append log_silent emit_silent
      split: option.split)

lemma connectSSE_returns:
  "fst (connectSSE call a w) = None \<longleftrightarrow> truthy (resolved a w) \<and> truthy (profileToken w)"
  by (simp add: connectSSE_def Let_def split_def disconnectSSE_returns)

lemma length_sources_close: "length (sources (close h w)) = length (sources w)"
  by (simp add: close_def)

lemma connectSSE_connection:
  assumes kc: "never_connects call"
    and ok: "truthy (resolved a w)" "truthy (profileToken w)"
  shows "\<exists>url. connection (snd (snd (connectSSE call a w)))
      = (Some (length (sources w)), eventSource w = None \<and> isConnected w,
         (case eventSource w of None \<Rightarrow> sources w | Some h \<Rightarrow> sources (close h w))
           @ [\<lparr>es_url = url, es_user = or_string (resolved a w) [], es_closed = False\<rparr>])
    \<and> transport_calls (fst (snd (connectSSE call a w)))
      = (case eventSource w of None \<Rightarrow> [] | Some h \<Rightarrow> [Close h]) @ [New (length (sources w)) url]"
proof (cases "eventSource w")
  case None
  with ok show ?thesis
    by (simp add: connectSSE_def Let_def connection_def transport_calls_append log_silent)
next
  case (Some h)
  define w1 where "w1 = snd (snd (disconnectSSE call w))"
  have c: "connection w1 = (None, False, sources (close h w))"
    using disconnectSSE_connection [OF kc, of w] Some by (simp add: w1_def)
  then have f: "isConnected w1 = False" "sources w1 = sources (close h w)"
    by (simp_all add: connection_def)
  have t: "transport_calls (fst (snd (disconnectSSE call w))) = [Close h]"
    using disconnectSSE_transport_calls [of call w] Some by simp
  from ok Some f t show ?thesis
    by (simp add: connectSSE_def Let_def split_def disconnectSSE_returns connection_def
        transport_calls_append log_silent length_sources_close w1_def [symmetric])
qed

lemma connectSSE_consistent:
  assumes kc: "never_connects call" and c: "consistent w"
  shows "consistent (snd (snd (connectSSE call a w)))"
proof (cases "truthy (resolved a w) \<and> truthy (profileToken w)")
  case False
  with c show ?thesis by (auto simp add: connectSSE_def Let_def)
next
  case True
  define w2 where "w2 = snd (snd (connectSSE call a w))"
  define before where
    "before = (case eventSource w of None \<Rightarrow> sources w | Some h \<Rightarrow> sources (close h w))"
  from connectSSE_connection [OF kc, of a w] True obtain url where
    "connection w2 = (Some (length (sources w)), eventSource w = None \<and> isConnected w,
       before @ [\<lparr>es_url = url, es_user = or_string (resolved a w) [], es_closed = False\<rparr>])"
    by (auto simp add: w2_def before_def)
  then have e: "eventSource w2 = Some (length (sources w))"
    and s: "sources w2 = before @ [\<lparr>es_url = url, es_user = or_string (resolved a w) [], es_closed = False\<rparr>]"
    by (simp_all add: connection_def)
  have len: "length before = length (sources w)"
    by (simp add: before_def length_sources_close split: option.split)
  have closed: "es_closed (before ! h)" if "h < length before" for h
  proof (cases "eventSource w")
    case None
    with c have "\<not> live h w" by (auto simp add: consistent_def)
    with that None show ?thesis by (simp add: live_def before_def)
  next
    case (Some h0)
    with c have only: "live h w \<Longrightarrow> h = h0" by (simp add: consistent_def)
    from that len have hl: "h < length (sources w)" by simp
    show ?thesis
    proof (cases "h = h0")
      case True
      with hl Some show ?thesis by (simp add: before_def close_def)
    next
      case False
      with only have "\<not> live h w" by blast
      with hl Some False show ?thesis
        by (simp add: before_def close_def live_def)
    qed
  qed
  have "live h w2 \<Longrightarrow> h = length (sources w)" for h
    using closed [of h] len s by (auto simp add: live_def nth_append split: if_splits)
  with e show ?thesis by (simp add: consistent_def w2_def)
qed


lemma onopen_not_reopened:
  assumes "never_connects call"
  shows "not_reopened (w\<lparr>isConnected := True, reconnectAttempts := 0\<rparr>)
    (snd (snd (onopen call u w)))"
  by (simp add: onopen_def Let_def split_def emit_not_reopened [OF assms])

lemma onmessage_not_reopened:
  assumes "never_connects call"
  shows "not_reopened w (snd (snd (onmessage call JSON_parse text w)))"
  by (simp add: onmessage_def Let_def split_def not_reopened_refl emit_not_reopened [OF assms]
      split: option.split sum.split)

lemma onerror_not_reopened:
  assumes "never_connects call"
  shows "not_reopened (w\<lparr>isConnected := False\<rparr>) (snd (snd (onerror call u err w)))"
proof -
  define w1 where "w1 = w\<lparr>isConnected := False\<rparr>"
  define w2 where "w2 = snd (snd (emit call ''error'' err w1))"
  define w3 where
    "w3 = snd (snd (emit call ''disconnected'' (JObject [(''reason'', JString ''error'')]) w2))"
  have r: "not_reopened w1 w3"
    unfolding w2_def w3_def
    by (rule not_reopened_trans [OF emit_not_reopened [OF assms] emit_not_reopened [OF assms]])
  have "connection (snd (snd (onerror call u err w))) = connection w3"
    by (simp add: onerror_def Let_def split_def emit_returns lookup_own_events connection_def
        w1_def w2_def w3_def)
  from not_reopened_to [OF this r] show ?thesis by (simp add: w1_def)
qed

lemma deliver_consistent:
  assumes kc: "never_connects call" and c: "consistent w"
  shows "consistent (snd (snd (deliver call JSON_parse h s w)))"
proof (cases "live h w")
  case False
  with c show ?thesis by (simp add: deliver_def)
next
  case True
  with c have e: "eventSource w = Some h" by (simp add: consistent_def)
  show ?thesis
  proof (cases s)
    case Opened
    from c e have "consistent (w\<lparr>isConnected := True, reconnectAttempts := 0\<rparr>)"
      by (simp add: consistent_def live_def)
    from consistent_not_reopened [OF this onopen_not_reopened [OF kc]] True Opened
    show ?thesis by (simp add: deliver_def)
  next
    case (Message m)
    from consistent_not_reopened [OF c onmessage_not_reopened [OF kc]] True Message
    show ?thesis by (simp add: deliver_def)
  next
    case (Failed err)
    from c have "consistent (w\<lparr>isConnected := False\<rparr>)"
      by (simp add: consistent_def live_def)
    from consistent_not_reopened [OF this onerror_not_reopened [OF kc]] True Failed
    show ?thesis by (simp add: deliver_def)
  qed
qed

lemma fire_consistent:
  assumes kc: "never_connects call" and c: "consistent w"
  shows "consistent (snd (snd (fire call i w)))"
proof -
  have "consistent (w\<lparr>timers := t\<rparr>)" for t
    using c by (simp add: consistent_def live_def)
  with c show ?thesis by (simp add: fire_def connectSSE_consistent [OF kc])
qed

lemma disconnectSSE_consistent:
  assumes "never_connects call" and "consistent w"
  shows "consistent (snd (snd (disconnectSSE call w)))"
  using disconnectSSE_at_rest [OF assms] by (simp add: at_rest_def consistent_def)

lemma step_consistent:
  assumes kc: "never_connects call" and c: "consistent w"
  shows "consistent (snd (snd (step call JSON_parse t w)))"
proof (cases t)
  case (Connect a)
  then show ?thesis by (simp add: step_def connectSSE_consistent [OF kc c])
next
  case Disconnect
  then show ?thesis by (simp add: step_def disconnectSSE_consistent [OF kc c])
next
  case (On event callback)
  with c show ?thesis by (simp add: step_def consistent_connection [OF on_connection])
next
  case (Off event callback)
  with c show ?thesis by (simp add: step_def consistent_connection [OF off_connection])
next
  case (Emit event data)
  from consistent_not_reopened [OF c emit_not_reopened [OF kc]] Emit
  show ?thesis by (simp add: step_def)
next
  case (Signal h s)
  then show ?thesis by (simp add: step_def deliver_consistent [OF kc c])
next
  case (Timeout i)
  then show ?thesis by (simp add: step_def fire_consistent [OF kc c])
qed

lemma run_consistent:
  assumes kc: "never_connects call"
  shows "consistent w \<Longrightarrow> consistent (run call JSON_parse ts w)"
  by (induction ts arbitrary: w) (simp_all add: step_consistent [OF kc])

text \<open>
  Subscribers that use the public methods but never call \<open>connectSSE\<close> never create
  an EventSource, however deep their calls nest.
\<close>

lemma perform_not_reopened:
  assumes "never_connects call" and "\<And>a. c \<noteq> CallConnect a"
  shows "not_reopened w (snd (snd (perform call c w)))"
proof (cases c)
  case (CallOn event callback)
  then show ?thesis by (simp add: perform_def not_reopened_def on_connection)
next
  case (CallOff event callback)
  then show ?thesis by (simp add: perform_def not_reopened_def off_connection)
next
  case (CallEmit event data)
  then show ?thesis by (simp add: perform_def emit_not_reopened [OF assms(1)])
next
  case (CallConnect a)
  with assms(2) [of a] show ?thesis by simp
next
  case CallDisconnect
  then show ?thesis
    by (simp add: perform_def not_reopened_def disconnectSSE_hangs_up [OF assms(1)])
next
  case Throw
  then show ?thesis by (simp add: perform_def not_reopened_refl)
qed

lemma body_not_reopened:
  assumes "never_connects call"
  shows "(\<And>a. CallConnect a \<notin> set cs) \<Longrightarrow> not_reopened w (snd (snd (body call cs w)))"
proof (induction cs arbitrary: w)
  case Nil
  show ?case by (simp add: not_reopened_refl)
next
  case (Cons c cs)
  from Cons.prems have c: "\<And>a. c \<noteq> CallConnect a" and cs: "\<And>a. CallConnect a \<notin> set cs"
    by auto
  note first = perform_not_reopened [OF assms c, of w]
  from not_reopened_trans [OF first Cons.IH [OF cs]] first
  show ?case by (simp add: Let_def split_def)
qed

lemma program_never_connects:
  assumes "never_calls_connect code"
  shows "never_connects (program code n)"
proof (induction n)
  case 0
  show ?case by (simp add: never_connects_def not_reopened_refl)
next
  case (Suc n)
  from assms have "\<And>a. CallConnect a \<notin> set (code callback)" for callback
    by (simp add: never_calls_connect_def)
  from body_not_reopened [OF Suc this] show ?case by (simp add: never_connects_def)
qed

lemma never_calls_connect_leaving: "never_calls_connect leaving"
  by (simp add: never_calls_connect_def leaving_def)

text \<open>
  Provided no subscriber creates an EventSource, that is, none calls \<open>connectSSE\<close>
  (subscribers may subscribe, unsubscribe, publish, disconnect and throw), in every
  state a client reaches the connected flag is up only while a handle is held, and no
  EventSource other than the one held is open; every turn keeps both.
\<close>

lemma flag_implies_handle_without_reentry:
  assumes "never_connects call"
  shows "consistent (run call JSON_parse ts (HermesClient config))
    \<and> (status_isConnected (getStatus (run call JSON_parse ts (HermesClient config)))
        \<longrightarrow> status_hasEventSource (getStatus (run call JSON_parse ts (HermesClient config))))
    \<and> (consistent w \<longrightarrow> consistent (snd (snd (step call JSON_parse t w))))"
proof -
  have c: "consistent (run call JSON_parse ts (HermesClient config))"
    by (rule run_consistent [OF assms consistent_new])
  then have "status_isConnected (getStatus (run call JSON_parse ts (HermesClient config)))
        \<longrightarrow> status_hasEventSource (getStatus (run call JSON_parse ts (HermesClient config)))"
    by (simp add: consistent_def getStatus_def)
  with c step_consistent [OF assms] show ?thesis by blast
qed

text \<open>
  C10 does not hold of the code. \<open>connectSSE\<close> tears the connection down before it
  opens the next one, and \<open>disconnectSSE\<close> clears handle and flag together, but the
  teardown publishes \<open>disconnected\<close> before the new EventSource is stored. A subscriber
  of \<open>disconnected\<close> calls \<open>connectSSE()\<close>. The second of two \<open>connectSSE()\<close>
  calls closes EventSource 0 and publishes \<open>disconnected\<close>; the subscriber opens
  EventSource 1; back in \<open>connectSSE\<close>, EventSource 2 is opened and stored over it.
  After \<open>off\<close> and \<open>disconnectSSE()\<close> no handle is held and the flag is down,
  EventSource 1 is still open, and when it opens the flag goes up:
  \<open>getStatus()\<close> reports \<open>isConnected\<close> without \<open>hasEventSource\<close>.
\<close>

theorem leaked_source_raises_flag_without_handle:
  "reconnecting 0 = [CallConnect ArgUndefined]
   \<and> getStatus (run (program reconnecting 2) unparseable
      [On ''disconnected'' 0, Connect ArgUndefined, Connect ArgUndefined,
       Off ''disconnected'' 0, Disconnect] (HermesClient receiver))
     = \<lparr>status_isConnected = False, status_reconnectAttempts = 0,
        status_hasEventSource = False\<rparr>
   \<and> live 1 (run (program reconnecting 2) unparseable
      [On ''disconnected'' 0, Connect ArgUndefined, Connect ArgUndefined,
       Off ''disconnected'' 0, Disconnect] (HermesClient receiver))
   \<and> getStatus (run (program reconnecting 2) unparseable
      [On ''disconnected'' 0, Connect ArgUndefined, Connect ArgUndefined,
       Off ''disconnected'' 0, Disconnect, Signal 1 Opened] (HermesClient receiver))
     = \<lparr>status_isConnected = True, status_reconnectAttempts = 0,
        status_hasEventSource = False\<rparr>"
  by code_simp

lemma onopen_published:
  "published (fst (snd (onopen call u w))) = [(''connected'', JObject [(''userId'', JString u)])]"
  by (simp add: onopen_def Let_def split_def published_append log_silent emit_published
      lookup_own_events)

text \<open>
  Provided no subscriber creates an EventSource, that is, none calls \<open>connectSSE\<close>:
  when \<open>connectSSE\<close> succeeds twice in succession on a client in any state it can
  reach, the second call closes the EventSource of the first and then creates its own,
  which is the only one open afterwards; when that one opens, \<open>connected\<close> is
  published exactly once, with the user identifier, and a signal on any other handle
  reaches no handler; and in no state that a client reaches, whatever its
  configuration, are two EventSources open.
\<close>

lemma second_connect_replaces_first_without_reentry:
  assumes kc: "never_connects call"
    and w: "w = run call JSON_parse ts (HermesClient config)"
    and c1: "connectSSE call a1 w = (None, tr1, w1)"
    and c2: "connectSSE call a2 w1 = (None, tr2, w2)"
  shows "\<exists>h1 h2 url.
      eventSource w1 = Some h1 \<and> eventSource w2 = Some h2 \<and> h1 \<noteq> h2
    \<and> transport_calls tr2 = [Close h1, New h2 url]
    \<and> (\<forall>h. live h w2 \<longleftrightarrow> h = h2)
    \<and> published (fst (snd (deliver call JSON_parse h2 Opened w2)))
        = [(''connected'', JObject [(''userId'', JString (or_string (resolved a2 w1) []))])]
    \<and> (\<forall>h s. h \<noteq> h2 \<longrightarrow> deliver call JSON_parse h s w2 = (None, [], w2))
    \<and> (\<forall>h h'. live h (run call JSON_parse ts' (HermesClient config'))
          \<and> live h' (run call JSON_parse ts' (HermesClient config')) \<longrightarrow> h = h')"
proof -
  have cw: "consistent w"
    unfolding w by (rule run_consistent [OF kc consistent_new])
  have cv: "consistent (run call JSON_parse ts' (HermesClient config'))"
    by (rule run_consistent [OF kc consistent_new])
  from c1 have ok1: "truthy (resolved a1 w)" "truthy (profileToken w)"
    using connectSSE_returns [of call a1 w] by simp_all
  from c2 have ok2: "truthy (resolved a2 w1)" "truthy (profileToken w1)"
    using connectSSE_returns [of call a2 w1] by simp_all
  have p1: "snd (snd (connectSSE call a1 w)) = w1" using c1 by simp
  have p2: "snd (snd (connectSSE call a2 w1)) = w2" "fst (snd (connectSSE call a2 w1)) = tr2"
    using c2 by simp_all
  from connectSSE_connection [OF kc ok1] obtain url1 where
    "connection (snd (snd (connectSSE call a1 w)))
       = (Some (length (sources w)), eventSource w = None \<and> isConnected w,
         (case eventSource w of None \<Rightarrow> sources w | Some h \<Rightarrow> sources (close h w))
           @ [\<lparr>es_url = url1, es_user = or_string (resolved a1 w) [], es_closed = False\<rparr>])"
    by blast
  then have e1: "eventSource w1 = Some (length (sources w))"
    and l1: "length (sources w1) = Suc (length (sources w))"
    unfolding p1 by (simp_all add: connection_def length_sources_close split: option.split)
  from connectSSE_connection [OF kc ok2] obtain url2 where
    "connection (snd (snd (connectSSE call a2 w1)))
       = (Some (length (sources w1)), eventSource w1 = None \<and> isConnected w1,
         (case eventSource w1 of None \<Rightarrow> sources w1 | Some h \<Rightarrow> sources (close h w1))
           @ [\<lparr>es_url = url2, es_user = or_string (resolved a2 w1) [], es_closed = False\<rparr>])"
    and "transport_calls (fst (snd (connectSSE call a2 w1)))
       = (case eventSource w1 of None \<Rightarrow> [] | Some h \<Rightarrow> [Close h])
           @ [New (length (sources w1)) url2]"
    by blast
  then have e2: "eventSource w2 = Some (length (sources w1))"
    and s2: "sources w2 = sources (close (length (sources w)) w1)
           @ [\<lparr>es_url = url2, es_user = or_string (resolved a2 w1) [], es_closed = False\<rparr>]"
    and t2: "transport_calls tr2 = [Close (length (sources w)), New (length (sources w1)) url2]"
    unfolding p2 by (simp_all add: connection_def e1)
  have cw1: "consistent w1"
    using connectSSE_consistent [OF kc cw, of a1] c1 by simp
  have cw2: "consistent w2"
    using connectSSE_consistent [OF kc cw1, of a2] c2 by simp
  have live2: "live (length (sources w1)) w2"
    by (simp add: live_def s2 length_sources_close nth_append)
  have u2: "es_user (sources w2 ! length (sources w1)) = or_string (resolved a2 w1) []"
    by (simp add: s2 length_sources_close nth_append)
  have only: "live h w2 \<longleftrightarrow> h = length (sources w1)" for h
  proof
    assume "live h w2"
    with cw2 have "eventSource w2 = Some h" by (simp add: consistent_def)
    with e2 show "h = length (sources w1)" by simp
  next
    assume "h = length (sources w1)"
    with live2 show "live h w2" by simp
  qed
  have opened: "published (fst (snd (deliver call JSON_parse (length (sources w1)) Opened w2)))
        = [(''connected'', JObject [(''userId'', JString (or_string (resolved a2 w1) []))])]"
    using live2 u2 by (simp add: deliver_def onopen_published)
  have others: "deliver call JSON_parse h s w2 = (None, [], w2)" if "h \<noteq> length (sources w1)" for h s
    using that only [of h] by (simp add: deliver_def)
  have one: "h = h'"
    if "live h (run call JSON_parse ts' (HermesClient config'))
      \<and> live h' (run call JSON_parse ts' (HermesClient config'))" for h h'
  proof -
    from cv that have
      "eventSource (run call JSON_parse ts' (HermesClient config')) = Some h"
      "eventSource (run call JSON_parse ts' (HermesClient config')) = Some h'"
      by (simp_all add: consistent_def)
    then show ?thesis by simp
  qed
  have ne: "length (sources w) \<noteq> length (sources w1)" using l1 by simp
  show ?thesis
  proof (intro exI conjI)
    show "eventSource w1 = Some (length (sources w))" by (rule e1)
    show "eventSource w2 = Some (length (sources w1))" by (rule e2)
    show "length (sources w) \<noteq> length (sources w1)" by (rule ne)
    show "transport_calls tr2 = [Close (length (sources w)), New (length (sources w1)) url2]"
      by (rule t2)
    show "\<forall>h. live h w2 \<longleftrightarrow> h = length (sources w1)" using only by blast
    show "published (fst (snd (deliver call JSON_parse (length (sources w1)) Opened w2)))
        = [(''connected'', JObject [(''userId'', JString (or_string (resolved a2 w1) []))])]"
      by (rule opened)
    show "\<forall>h s. h \<noteq> length (sources w1) \<longrightarrow> deliver call JSON_parse h s w2 = (None, [], w2)"
      using others by blast
    show "\<forall>h h'. live h (run call JSON_parse ts' (HermesClient config'))
          \<and> live h' (run call JSON_parse ts' (HermesClient config')) \<longrightarrow> h = h'"
      using one by blast
  qed
qed

text \<open>
  C2 does not hold of the code. \<open>connectSSE\<close> disconnects first when a handle is
  held, so that one connection replaces the other, but \<open>disconnectSSE\<close> publishes
  \<open>disconnected\<close> before \<open>connectSSE\<close> stores the new EventSource, and nothing
  guards against a call of \<open>connectSSE\<close> in between. With a subscriber of
  \<open>disconnected\<close> that calls \<open>connectSSE()\<close>, the second of two calls of
  \<open>connectSSE()\<close> in succession closes EventSource 0, the subscriber creates
  EventSource 1, and \<open>connectSSE\<close> creates EventSource 2 and stores it over 1
  without closing it: two EventSources are open, the client holds only the second, and
  each publishes \<open>connected\<close> when it opens.
\<close>

theorem reentrant_connect_leaves_two_sources:
  "reconnecting 0 = [CallConnect ArgUndefined]
   \<and> transport_calls (everything (fst (snd (step (program reconnecting 2) unparseable
        (Connect ArgUndefined)
        (run (program reconnecting 2) unparseable [On ''disconnected'' 0, Connect ArgUndefined]
          (HermesClient receiver))))))
      = [Close 0, New 1 ''http://localhost:8000/sse/notifications/u1/?token=tok'',
         New 2 ''http://localhost:8000/sse/notifications/u1/?token=tok'']
   \<and> eventSource (run (program reconnecting 2) unparseable
      [On ''disconnected'' 0, Connect ArgUndefined, Connect ArgUndefined] (HermesClient receiver))
      = Some 2
   \<and> live 1 (run (program reconnecting 2) unparseable
      [On ''disconnected'' 0, Connect ArgUndefined, Connect ArgUndefined] (HermesClient receiver))
   \<and> live 2 (run (program reconnecting 2) unparseable
      [On ''disconnected'' 0, Connect ArgUndefined, Connect ArgUndefined] (HermesClient receiver))
   \<and> published (fst (snd (step (program reconnecting 2) unparseable (Signal 1 Opened)
        (run (program reconnecting 2) unparseable
          [On ''disconnected'' 0, Connect ArgUndefined, Connect ArgUndefined]
          (HermesClient receiver)))))
      = [(''connected'', JObject [(''userId'', JString ''u1'')])]
   \<and> published (fst (snd (step (program reconnecting 2) unparseable (Signal 2 Opened)
        (run (program reconnecting 2) unparseable
          [On ''disconnected'' 0, Connect ArgUndefined, Connect ArgUndefined, Signal 1 Opened]
          (HermesClient receiver)))))
      = [(''connected'', JObject [(''userId'', JString ''u1'')])]"
  by code_simp

subsection \<open>The reconnect counter\<close>

lemma counter_reserved: "reserved w' = reserved w \<Longrightarrow> counter w' = counter w"
  by (simp add: reserved_def counter_def)

lemma onmessage_reserved:
  assumes "keeps reserved call"
  shows "reserved (snd (snd (onmessage call JSON_parse text w))) = reserved w"
  using assms
  by (simp add: onmessage_def Let_def split_def emit_keeps split: option.split sum.split)

lemma onopen_counter:
  assumes "keeps reserved call"
  shows "counter (snd (snd (onopen call u w))) = (0, maxReconnectAttempts w)"
proof -
  have "counter v = (reconnectAttempts v, maxReconnectAttempts v)" for v
    by (simp add: counter_def)
  with keeps_reserved [OF assms] show ?thesis
    by (simp add: onopen_def Let_def split_def emit_keeps)
qed

lemma onerror_counter:
  assumes "keeps reserved call"
  shows "counter (snd (snd (onerror call u err w)))
      = (if reconnectAttempts w < maxReconnectAttempts w then reconnectAttempts w + 1
         else reconnectAttempts w, maxReconnectAttempts w)"
    and "scheduled (fst (snd (onerror call u err w)))
      = (if reconnectAttempts w < maxReconnectAttempts w then [(reconnectDelay w, u)] else [])"
proof -
  have c: "counter v = (reconnectAttempts v, maxReconnectAttempts v)" for v
    by (simp add: counter_def)
  from keeps_reserved [OF assms] c
  show "counter (snd (snd (onerror call u err w)))
      = (if reconnectAttempts w < maxReconnectAttempts w then reconnectAttempts w + 1
         else reconnectAttempts w, maxReconnectAttempts w)"
    by (simp add: onerror_def Let_def split_def emit_keeps emit_returns lookup_own_events)
  from keeps_reserved [OF assms]
  show "scheduled (fst (snd (onerror call u err w)))
      = (if reconnectAttempts w < maxReconnectAttempts w then [(reconnectDelay w, u)] else [])"
    by (simp add: onerror_def Let_def split_def emit_keeps emit_returns lookup_own_events
        scheduled_append log_silent emit_silent)
qed

lemma step_counter:
  assumes kr: "keeps reserved call"
  shows "counter (snd (snd (step call JSON_parse t w)))
    = (case t of
         Signal h s \<Rightarrow>
           if live h w then
             (case s of
                Opened \<Rightarrow> (0, maxReconnectAttempts w)
              | Message m \<Rightarrow> counter w
              | Failed err \<Rightarrow>
                  (if reconnectAttempts w < maxReconnectAttempts w then reconnectAttempts w + 1
                   else reconnectAttempts w, maxReconnectAttempts w))
           else counter w
       | _ \<Rightarrow> counter w)"
proof (cases t)
  case (Connect a)
  then show ?thesis by (simp add: step_def counter_reserved [OF connectSSE_reserved [OF kr]])
next
  case Disconnect
  then show ?thesis by (simp add: step_def counter_reserved [OF disconnectSSE_reserved [OF kr]])
next
  case (On event callback)
  then show ?thesis by (simp add: step_def counter_reserved [OF on_reserved])
next
  case (Off event callback)
  then show ?thesis by (simp add: step_def counter_reserved [OF off_reserved])
next
  case (Emit event data)
  then show ?thesis by (simp add: step_def counter_reserved [OF emit_keeps [OF kr]])
next
  case (Signal h s)
  then show ?thesis
    by (cases s)
       (simp_all add: step_def deliver_def onopen_counter [OF kr] onerror_counter(1) [OF kr]
          counter_reserved [OF onmessage_reserved [OF kr]])
next
  case (Timeout i)
  have "counter (w\<lparr>timers := t\<rparr>) = counter w" for t by (simp add: counter_def)
  with Timeout show ?thesis
    by (simp add: step_def fire_def counter_reserved [OF connectSSE_reserved [OF kr]])
qed

lemma run_counter:
  assumes kr: "keeps reserved call"
  shows "reconnectAttempts w \<le> maxReconnectAttempts w \<Longrightarrow> 0 \<le> maxReconnectAttempts w \<Longrightarrow>
    maxReconnectAttempts (run call JSON_parse ts w) = maxReconnectAttempts w
    \<and> reconnectAttempts (run call JSON_parse ts w) \<le> maxReconnectAttempts w
    \<and> (delivered is_open call JSON_parse ts w = 0 \<longrightarrow>
        reconnectAttempts (run call JSON_parse ts w)
          = min (maxReconnectAttempts w)
              (reconnectAttempts w + int (delivered is_failure call JSON_parse ts w)))"
proof (induction ts arbitrary: w)
  case Nil
  then show ?case by simp
next
  case (Cons t ts)
  define v where "v = snd (snd (step call JSON_parse t w))"
  have cv: "counter v = (reconnectAttempts v, maxReconnectAttempts v)"
    by (simp add: counter_def)
  have cw: "counter w = (reconnectAttempts w, maxReconnectAttempts w)"
    by (simp add: counter_def)
  note sc = step_counter [OF kr, of JSON_parse t w, folded v_def, unfolded cv cw]
  from sc have m: "maxReconnectAttempts v = maxReconnectAttempts w"
    by (auto split: turn.splits signal.splits if_splits)
  from sc Cons.prems have le: "reconnectAttempts v \<le> maxReconnectAttempts v"
    by (auto split: turn.splits signal.splits if_splits)
  from Cons.prems m have nn: "0 \<le> maxReconnectAttempts v" by simp
  note ih = Cons.IH [OF le nn]
  have eq: "reconnectAttempts (run call JSON_parse ts v)
          = min (maxReconnectAttempts w)
              (reconnectAttempts w + int (delivered is_failure call JSON_parse (t # ts) w))"
    if o: "delivered is_open call JSON_parse (t # ts) w = 0"
  proof -
    from o have o1: "delivered is_open call JSON_parse ts v = 0"
      and o2: "(case t of Signal h s \<Rightarrow> if live h w \<and> is_open s then 1 else 0 | _ \<Rightarrow> 0) = (0::nat)"
      by (simp_all add: v_def)
    from ih o1 m have r: "reconnectAttempts (run call JSON_parse ts v)
      = min (maxReconnectAttempts w) (reconnectAttempts v + int (delivered is_failure call JSON_parse ts v))"
      by simp
    from sc o2 Cons.prems have "reconnectAttempts v
      = (if (case t of Signal h s \<Rightarrow> live h w \<and> is_failure s | _ \<Rightarrow> False)
         then min (maxReconnectAttempts w) (reconnectAttempts w + 1) else reconnectAttempts w)"
      by (auto simp add: is_open_def is_failure_def split: turn.splits signal.splits if_splits)
    with r Cons.prems show ?thesis
      by (auto simp add: v_def is_failure_def split: turn.splits signal.splits if_splits)
  qed
  from ih m eq show ?case by (simp add: v_def)
qed

text \<open>
  C5. Take a client constructed with \<open>maxReconnectAttempts\<close> N, at least 1, and
  subscribers that use the public methods only (they keep what is reserved), in any
  state \<open>w\<close> it reaches. The counter never exceeds N. Over any further turns in
  which no connection opens, the counter reported by \<open>getStatus\<close> is the number of
  transport errors handled, added to what it was, capped at N: N errors in a row from 0
  give N. A transport error handled while the counter is below N schedules one
  reconnect and adds one; at N it schedules none and the counter stays N. A connection
  that opens sets the counter to 0.
\<close>

theorem reconnect_counter_stops_at_maximum:
  assumes n: "1 \<le> N" and cfg: "cfg_maxReconnectAttempts config = Some N"
    and kr: "keeps reserved call"
    and w: "w = run call JSON_parse ts (HermesClient config)"
  shows "maxReconnectAttempts w = N
    \<and> status_reconnectAttempts (getStatus w) \<le> N
    \<and> (delivered is_open call JSON_parse ts' w = 0 \<longrightarrow>
         status_reconnectAttempts (getStatus (run call JSON_parse ts' w))
           = min N (reconnectAttempts w + int (delivered is_failure call JSON_parse ts' w)))
    \<and> (live h w \<and> reconnectAttempts w = N \<longrightarrow>
         scheduled (fst (snd (step call JSON_parse (Signal h (Failed err)) w))) = []
         \<and> reconnectAttempts (snd (snd (step call JSON_parse (Signal h (Failed err)) w))) = N)
    \<and> (live h w \<and> reconnectAttempts w < N \<longrightarrow>
         scheduled (fst (snd (step call JSON_parse (Signal h (Failed err)) w)))
           = [(reconnectDelay w, es_user (sources w ! h))]
         \<and> reconnectAttempts (snd (snd (step call JSON_parse (Signal h (Failed err)) w)))
           = reconnectAttempts w + 1)
    \<and> (live h w \<longrightarrow>
         reconnectAttempts (snd (snd (step call JSON_parse (Signal h Opened) w))) = 0)"
proof -
  from n cfg have new: "reconnectAttempts (HermesClient config) = 0"
    "maxReconnectAttempts (HermesClient config) = N"
    by (simp_all add: HermesClient_def or_number_def)
  from run_counter [OF kr, of "HermesClient config" JSON_parse ts] new n
  have m: "maxReconnectAttempts w = N" and le: "reconnectAttempts w \<le> N"
    by (simp_all add: w)
  from run_counter [OF kr, of w JSON_parse ts'] m le n
  have later: "delivered is_open call JSON_parse ts' w = 0 \<longrightarrow>
         reconnectAttempts (run call JSON_parse ts' w)
           = min N (reconnectAttempts w + int (delivered is_failure call JSON_parse ts' w))"
    by simp
  have c: "counter v = (reconnectAttempts v, maxReconnectAttempts v)" for v
    by (simp add: counter_def)
  have failed: "reconnectAttempts (snd (snd (step call JSON_parse (Signal h (Failed err)) w)))
      = (if reconnectAttempts w < N then reconnectAttempts w + 1 else reconnectAttempts w)"
    if "live h w"
    using step_counter [OF kr, of JSON_parse "Signal h (Failed err)" w] that m by (simp add: c)
  have sched: "scheduled (fst (snd (step call JSON_parse (Signal h (Failed err)) w)))
      = (if reconnectAttempts w < N then [(reconnectDelay w, es_user (sources w ! h))] else [])"
    if "live h w"
    using that m by (simp add: step_def deliver_def onerror_counter(2) [OF kr])
  have opened: "reconnectAttempts (snd (snd (step call JSON_parse (Signal h Opened) w))) = 0"
    if "live h w"
    using step_counter [OF kr, of JSON_parse "Signal h Opened" w] that by (simp add: c)
  from m le later failed sched opened show ?thesis
    by (simp add: getStatus_def)
qed

text \<open>
  The scenario \<open>{reconnectDelay: 10, maxReconnectAttempts: 2}\<close>, with a subscriber of
  \<open>error\<close> that reconnects at once: two errors bring the counter to 2, the third
  schedules nothing.
\<close>

theorem reconnect_counter_stops_at_maximum_witness:
  "maxReconnectAttempts listening = 2 \<and> reconnectAttempts listening = 0
   \<and> delivered is_open (program reconnecting 2) unparseable
        [Signal 0 (Failed JNull), Signal 1 (Failed JNull)] listening = 0
   \<and> delivered is_failure (program reconnecting 2) unparseable
        [Signal 0 (Failed JNull), Signal 1 (Failed JNull)] listening = 2
   \<and> status_reconnectAttempts (getStatus (run (program reconnecting 2) unparseable
        [Signal 0 (Failed JNull), Signal 1 (Failed JNull)] listening)) = 2
   \<and> live 2 exhausted \<and> reconnectAttempts exhausted = 2
   \<and> scheduled (fst (snd (step (program reconnecting 2) unparseable (Signal 2 (Failed JNull))
        exhausted))) = []
   \<and> reconnectAttempts (snd (snd (step (program reconnecting 2) unparseable
        (Signal 2 (Failed JNull)) exhausted))) = 2
   \<and> reconnectAttempts (snd (snd (step (program reconnecting 2) unparseable
        (Signal 2 Opened) exhausted))) = 0"
proof -
  have n: "(1::int) \<le> 2" by simp
  have m: "cfg_maxReconnectAttempts retrying = Some 2" by code_simp
  have r: "reconnectAttempts listening = 0" by code_simp
  have o: "delivered is_open (program reconnecting 2) unparseable
        [Signal 0 (Failed JNull), Signal 1 (Failed JNull)] listening = 0"
    by code_simp
  have f: "delivered is_failure (program reconnecting 2) unparseable
        [Signal 0 (Failed JNull), Signal 1 (Failed JNull)] listening = 2"
    by code_simp
  have l: "live 2 exhausted" by code_simp
  have e: "reconnectAttempts exhausted = 2" by code_simp
  note a = reconnect_counter_stops_at_maximum [OF n m program_reserved listening_def,
      of "[Signal 0 (Failed JNull), Signal 1 (Failed JNull)]"]
  note b = reconnect_counter_stops_at_maximum [OF n m program_reserved exhausted_def, of _ 2 JNull]
  from a b r o f l e show ?thesis by simp
qed

subsection \<open>A pending reconnect and \<open>disconnectSSE\<close>\<close>

lemma follows_refl: "follows w w"
  by (simp add: follows_def split: option.split)

lemma follows_trans:
  assumes "follows w w1" and "follows w1 w2"
  shows "follows w w2"
proof -
  from assms have len: "length (sources w) \<le> length (sources w1)"
    "length (sources w1) \<le> length (sources w2)"
    by (simp_all add: follows_def)
  have "live h w \<or> length (sources w) \<le> h" if "live h w2" for h
  proof -
    from assms(2) that have "live h w1 \<or> length (sources w1) \<le> h"
      by (simp add: follows_def)
    with assms(1) len show ?thesis by (auto simp add: follows_def)
  qed
  moreover have "isConnected w2 \<longrightarrow> isConnected w"
    using assms by (simp add: follows_def)
  moreover have "eventSource w = Some h \<or> length (sources w) \<le> h"
    if "eventSource w2 = Some h" for h
  proof -
    from assms(2) that have "eventSource w1 = Some h \<or> length (sources w1) \<le> h"
      by (simp add: follows_def)
    with assms(1) len show ?thesis by (auto simp add: follows_def)
  qed
  ultimately show ?thesis using len by (simp add: follows_def split: option.split)
qed

lemma follows_connection: "connection w' = connection w \<Longrightarrow> follows w w'"
  by (simp add: follows_def connection_def live_def split: option.split)

lemma orderly_idle: "orderly idle"
  by (simp add: orderly_def idle_def follows_refl)

lemma forEach_follows:
  assumes "orderly call"
  shows "follows w (snd (forEach call event data k n w))"
proof (induction n arbitrary: k w)
  case 0
  show ?case by (simp add: follows_refl)
next
  case (Suc n)
  show ?case
  proof (cases "lookup (listeners w) event")
    case Absent
    with Suc show ?thesis by simp
  next
    case Inherited
    with Suc show ?thesis by simp
  next
    case (Array a)
    show ?thesis
    proof (cases "k < length a")
      case False
      with Array Suc show ?thesis by simp
    next
      case True
      from assms have "follows w (snd (snd (call (a ! k) data w)))"
        by (simp add: orderly_def)
      from follows_trans [OF this Suc [of "snd (snd (call (a ! k) data w))" "Suc k"]]
      show ?thesis using Array True by (simp add: Let_def split_def)
    qed
  qed
qed

lemma emit_follows:
  assumes "orderly call"
  shows "follows w (snd (snd (emit call event data w)))"
  by (simp add: emit_def Let_def split_def follows_refl forEach_follows [OF assms]
      split: slot.split)

text \<open>
  What \<open>disconnectSSE\<close> does to the connection before it publishes \<open>disconnected\<close>.
\<close>

lemma follows_cleared:
  "follows w ((close h w)\<lparr>eventSource := None, isConnected := False\<rparr>)"
  by (auto simp add: follows_def close_def live_def nth_list_update split: if_splits)

lemma disconnectSSE_follows:
  assumes "orderly call"
  shows "follows w (snd (snd (disconnectSSE call w)))"
proof (cases "eventSource w")
  case None
  then show ?thesis by (simp add: disconnectSSE_def follows_refl)
next
  case (Some h)
  from follows_trans [OF follows_cleared emit_follows [OF assms]] Some
  show ?thesis by (simp add: disconnectSSE_def Let_def split_def)
qed

lemma follows_opened:
  "follows w (w\<lparr>eventSource := Some (length (sources w)), sources := sources w @ [s]\<rparr>)"
  by (auto simp add: follows_def live_def nth_append split: if_splits)

lemma connectSSE_follows:
  assumes "orderly call"
  shows "follows w (snd (snd (connectSSE call a w)))"
proof (cases "truthy (resolved a w) \<and> truthy (profileToken w)")
  case False
  then show ?thesis by (auto simp add: connectSSE_def Let_def follows_refl)
next
  case True
  show ?thesis
  proof (cases "eventSource w")
    case None
    with True follows_opened [of w] show ?thesis
      by (simp add: connectSSE_def Let_def)
  next
    case (Some h)
    from follows_trans [OF disconnectSSE_follows [OF assms] follows_opened] True Some
    show ?thesis
      by (simp add: connectSSE_def Let_def split_def disconnectSSE_returns)
  qed
qed

text \<open>
  A subscriber that only calls the public methods leaves the connection so, however
  deep the calls nest.
\<close>

lemma perform_follows:
  assumes "orderly call"
  shows "follows w (snd (snd (perform call c w)))"
  using assms
  by (cases c)
     (simp_all add: perform_def follows_connection on_connection off_connection emit_follows
        connectSSE_follows disconnectSSE_follows follows_refl)

lemma body_follows:
  assumes "orderly call"
  shows "follows w (snd (snd (body call cs w)))"
proof (induction cs arbitrary: w)
  case Nil
  show ?case by (simp add: follows_refl)
next
  case (Cons c cs)
  note first = perform_follows [OF assms, of w c]
  from follows_trans [OF first Cons.IH] first
  show ?case by (simp add: Let_def split_def)
qed

lemma program_orderly: "orderly (program code n)"
proof (induction n)
  case 0
  show ?case by (simp add: orderly_def follows_refl)
next
  case (Suc n)
  then show ?case by (simp add: orderly_def body_follows)
qed

text \<open>
  \<open>disconnectSSE\<close> on a client that holds an open EventSource closes it, and when it
  returns that EventSource is closed and no longer held, and the flag is down.
\<close>

lemma disconnectSSE_lets_go:
  assumes oc: "orderly call" and held: "eventSource w = Some h" and l: "live h w"
  shows "transport_calls (fst (snd (disconnectSSE call w))) = [Close h]"
    and "\<not> live h (snd (snd (disconnectSSE call w)))"
    and "eventSource (snd (snd (disconnectSSE call w))) \<noteq> Some h"
    and "\<not> isConnected (snd (snd (disconnectSSE call w)))"
proof -
  define v where "v = (close h w)\<lparr>eventSource := None, isConnected := False\<rparr>"
  define w1 where "w1 = snd (snd (disconnectSSE call w))"
  from held have w1: "w1 = snd (snd (emit call ''disconnected''
      (JObject [(''reason'', JString ''manual'')]) v))"
    by (simp add: w1_def v_def disconnectSSE_def Let_def split_def)
  from emit_follows [OF oc] have f: "follows v w1" unfolding w1 by simp
  from l have v: "\<not> live h v" "h < length (sources v)" "eventSource v = None" "\<not> isConnected v"
    by (simp_all add: v_def close_def live_def)
  from held show "transport_calls (fst (snd (disconnectSSE call w))) = [Close h]"
    by (simp add: disconnectSSE_def Let_def split_def transport_calls_append log_silent
        emit_silent)
  from f v show "\<not> live h (snd (snd (disconnectSSE call w)))"
    unfolding w1_def [symmetric] by (auto simp add: follows_def)
  from f v show "eventSource (snd (snd (disconnectSSE call w))) \<noteq> Some h"
    unfolding w1_def [symmetric] by (auto simp add: follows_def)
  from f v show "\<not> isConnected (snd (snd (disconnectSSE call w)))"
    unfolding w1_def [symmetric] by (auto simp add: follows_def)
qed

lemma connectSSE_opens:
  assumes "orderly call" and "truthy (resolved a w)" and "truthy (profileToken w)"
  shows "\<exists>tr h url w2. connectSSE call a w = (None, tr @ [New h url], w2)
    \<and> length (sources w) \<le> h \<and> eventSource w2 = Some h \<and> live h w2
    \<and> es_user (sources w2 ! h) = or_string (resolved a w) []"
proof -
  define w1 where "w1 = (if eventSource w \<noteq> None then snd (snd (disconnectSSE call w)) else w)"
  define url where "url = baseUrl w1 @ ''/sse/notifications/'' @ or_string (resolved a w) []
      @ ''/?token='' @ or_string (profileToken w) []"
  define w2 where "w2 = w1\<lparr>eventSource := Some (length (sources w1)),
      sources := sources w1
        @ [\<lparr>es_url = url, es_user = or_string (resolved a w) [], es_closed = False\<rparr>]\<rparr>"
  define tr0 where "tr0 = (if eventSource w \<noteq> None
      then log w ''SSE already connected, disconnecting first'' @ fst (snd (disconnectSSE call w))
      else [])"
  have "fst (connectSSE call a w) = None"
    "fst (snd (connectSSE call a w))
      = (tr0 @ log w1 ''Connecting to SSE'') @ [New (length (sources w1)) url]"
    "snd (snd (connectSSE call a w)) = w2"
    using assms(2,3)
    by (simp_all add: connectSSE_def Let_def split_def disconnectSSE_returns
        w1_def url_def w2_def tr0_def)
  then have "connectSSE call a w
      = (None, (tr0 @ log w1 ''Connecting to SSE'') @ [New (length (sources w1)) url], w2)"
    by (simp add: prod_eq_iff)
  moreover have "eventSource w2 = Some (length (sources w1))"
    "live (length (sources w1)) w2"
    "es_user (sources w2 ! length (sources w1)) = or_string (resolved a w) []"
    by (simp_all add: w2_def live_def)
  moreover have "length (sources w) \<le> length (sources w1)"
    using disconnectSSE_follows [OF assms(1), of w] by (simp add: w1_def follows_def)
  ultimately show ?thesis by blast
qed

lemma onerror_timers:
  assumes "keeps reserved call"
  shows "timers (snd (snd (onerror call u err w)))
      = timers w @ (if reconnectAttempts w < maxReconnectAttempts w
                    then [(reconnectDelay w, u)] else [])"
    and "profileToken (snd (snd (onerror call u err w))) = profileToken w"
  using keeps_reserved [OF assms]
  by (simp_all add: onerror_def Let_def split_def emit_keeps emit_returns lookup_own_events)

lemma onopen_reserved:
  assumes "keeps reserved call"
  shows "timers (snd (snd (onopen call u w))) = timers w"
    and "profileToken (snd (snd (onopen call u w))) = profileToken w"
  using keeps_reserved [OF assms]
  by (simp_all add: onopen_def Let_def split_def emit_keeps)

text \<open>Nothing but its own firing removes a pending timer, and the token stays.\<close>

lemma step_pending:
  assumes kr: "keeps reserved call" and t: "case t of Timeout i \<Rightarrow> False | _ \<Rightarrow> True"
  shows "take (length (timers w)) (timers (snd (snd (step call JSON_parse t w)))) = timers w
    \<and> profileToken (snd (snd (step call JSON_parse t w))) = profileToken w"
proof -
  have same: "take (length (timers w)) (timers v) = timers w \<and> profileToken v = profileToken w"
    if "reserved v = reserved w" for v
    using that by (simp add: reserved_def)
  show ?thesis
  proof (cases t)
    case (Connect a)
    with same [OF connectSSE_reserved [OF kr]] show ?thesis by (simp add: step_def)
  next
    case Disconnect
    with same [OF disconnectSSE_reserved [OF kr]] show ?thesis by (simp add: step_def)
  next
    case (On event callback)
    with same [OF on_reserved] show ?thesis by (simp add: step_def)
  next
    case (Off event callback)
    with same [OF off_reserved] show ?thesis by (simp add: step_def)
  next
    case (Emit event data)
    with same [OF emit_keeps [OF kr]] show ?thesis by (simp add: step_def)
  next
    case (Signal h s)
    show ?thesis
    proof (cases s)
      case Opened
      with Signal onopen_reserved [OF kr] show ?thesis by (simp add: step_def deliver_def)
    next
      case (Message m)
      with Signal same [OF onmessage_reserved [OF kr]] show ?thesis
        by (simp add: step_def deliver_def)
    next
      case (Failed err)
      with Signal onerror_timers [OF kr] show ?thesis by (simp add: step_def deliver_def)
    qed
  next
    case (Timeout i)
    with t show ?thesis by simp
  qed
qed

lemma run_pending:
  assumes kr: "keeps reserved call"
  shows "no_timer_fires ts \<Longrightarrow>
    take (length (timers w)) (timers (run call JSON_parse ts w)) = timers w
    \<and> profileToken (run call JSON_parse ts w) = profileToken w"
proof (induction ts arbitrary: w)
  case Nil
  show ?case by simp
next
  case (Cons t ts)
  define v where "v = snd (snd (step call JSON_parse t w))"
  from Cons.prems have t: "case t of Timeout i \<Rightarrow> False | _ \<Rightarrow> True" and ts: "no_timer_fires ts"
    by (simp_all add: no_timer_fires_def)
  from step_pending [OF kr t, of w JSON_parse]
  have s: "take (length (timers w)) (timers v) = timers w" "profileToken v = profileToken w"
    by (simp_all add: v_def)
  from Cons.IH [OF ts, of v]
  have r: "take (length (timers v)) (timers (run call JSON_parse ts v)) = timers v"
    "profileToken (run call JSON_parse ts v) = profileToken v"
    by simp_all
  from s(1) have "length (timers w) \<le> length (timers v)"
    by (rule take_all_of)
  then have "take (length (timers w)) (timers (run call JSON_parse ts v))
      = take (length (timers w)) (take (length (timers v)) (timers (run call JSON_parse ts v)))"
    by (simp add: min_absorb1)
  with r s show ?case by (simp add: v_def)
qed

text \<open>
  C1, as the code has it. Take subscribers that use the public methods only. A
  transport error handled while the counter is below the maximum leaves a reconnect for
  the user \<open>u\<close> of the connection pending. Whatever happens next short of a timer
  firing, \<open>disconnectSSE\<close> then returns normally; if the client holds an open
  EventSource it closes it, and when it returns that EventSource is closed and no
  longer held and the connected flag is down. But it cancels no timer, in this or in
  any other state: the reconnect stays pending, through whatever happens after the
  disconnect short of a timer firing, and when it fires it calls \<open>connectSSE(u)\<close>,
  which creates a new EventSource for \<open>u\<close>, one that did not exist before, and the
  client holds it, open.
\<close>

theorem disconnect_keeps_reconnect_pending:
  assumes kr: "keeps reserved call" and oc: "orderly call"
    and l: "live h0 w0" and c: "reconnectAttempts w0 < maxReconnectAttempts w0"
    and u: "es_user (sources w0 ! h0) = u" and ne: "u \<noteq> []"
    and tok: "truthy (profileToken w0)"
    and e: "deliver call JSON_parse h0 (Failed err) w0 = (x0, tr0, w)"
    and n1: "no_timer_fires ts1" and v1: "v1 = run call JSON_parse ts1 w"
    and d: "disconnectSSE call v1 = (x, tr, w1)"
    and n2: "no_timer_fires ts2" and v2: "v2 = run call JSON_parse ts2 w1"
  shows "timers w = timers w0 @ [(reconnectDelay w0, u)]
    \<and> x = None
    \<and> (eventSource v1 = Some h1 \<and> live h1 v1 \<longrightarrow>
          transport_calls tr = [Close h1] \<and> \<not> live h1 w1 \<and> eventSource w1 \<noteq> Some h1
          \<and> \<not> isConnected w1)
    \<and> timers w1 = timers v1
    \<and> timers (snd (snd (disconnectSSE call v))) = timers v
    \<and> take (Suc (length (timers w0))) (timers v2) = timers w0 @ [(reconnectDelay w0, u)]
    \<and> (\<exists>tr2 h url w2. fire call (length (timers w0)) v2 = (None, tr2 @ [New h url], w2)
         \<and> length (sources v2) \<le> h \<and> eventSource w2 = Some h \<and> live h w2
         \<and> es_user (sources w2 ! h) = u)"
proof -
  define i where "i = length (timers w0)"
  from e l u have w: "w = snd (snd (onerror call u err w0))"
    by (simp add: deliver_def)
  from onerror_timers [OF kr, of u err w0] c
  have tw: "timers w = timers w0 @ [(reconnectDelay w0, u)]"
    and pw: "profileToken w = profileToken w0"
    by (simp_all add: w)
  from disconnectSSE_returns [of call v1] d have x: "x = None" by simp
  from d have p: "fst (snd (disconnectSSE call v1)) = tr" "snd (snd (disconnectSSE call v1)) = w1"
    by simp_all
  have go: "transport_calls tr = [Close h1] \<and> \<not> live h1 w1 \<and> eventSource w1 \<noteq> Some h1
      \<and> \<not> isConnected w1"
    if "eventSource v1 = Some h1 \<and> live h1 v1"
    using disconnectSSE_lets_go [OF oc, of v1 h1] that unfolding p by blast
  from disconnectSSE_reserved [OF kr, of v1] d have r: "reserved w1 = reserved v1" by simp
  then have t: "timers w1 = timers v1" and pt: "profileToken w1 = profileToken v1"
    by (simp_all add: reserved_def)
  from disconnectSSE_reserved [OF kr, of v]
  have any: "timers (snd (snd (disconnectSSE call v))) = timers v"
    by (simp add: reserved_def)
  from run_pending [OF kr n1, of w JSON_parse] v1
  have b1: "take (length (timers w)) (timers v1) = timers w" "profileToken v1 = profileToken w"
    by simp_all
  from run_pending [OF kr n2, of w1 JSON_parse] v2
  have b2: "take (length (timers w1)) (timers v2) = timers w1" "profileToken v2 = profileToken w1"
    by simp_all
  from b1(1) have "length (timers w) \<le> length (timers v1)"
    by (rule take_all_of)
  with t have "take (length (timers w)) (timers v2)
      = take (length (timers w)) (take (length (timers w1)) (timers v2))"
    by (simp add: min_absorb1)
  with b1(1) b2(1) t have "take (length (timers w)) (timers v2) = timers w" by simp
  with tw have pending: "take (Suc i) (timers v2) = timers w0 @ [(reconnectDelay w0, u)]"
    by (simp add: i_def)
  then have "length (take (Suc i) (timers v2)) = Suc i" by (simp add: i_def)
  then have il: "i < length (timers v2)" by simp
  then have "timers v2 ! i = take (Suc i) (timers v2) ! i" by simp
  with pending have ti: "timers v2 ! i = (reconnectDelay w0, u)" by (simp add: i_def)
  define v' where "v' = v2\<lparr>timers := take i (timers v2) @ drop (Suc i) (timers v2)\<rparr>"
  have "truthy (resolved (ArgString u) v')" "truthy (profileToken v')"
    using ne tok pt pw b1(2) b2(2) by (simp_all add: resolved_def truthy_def v'_def)
  from connectSSE_opens [OF oc this] obtain tr2 h url w2 where
    "connectSSE call (ArgString u) v' = (None, tr2 @ [New h url], w2)"
    "length (sources v') \<le> h"
    "eventSource w2 = Some h" "live h w2" "es_user (sources w2 ! h) = u"
    using ne by (auto simp add: resolved_def or_string_def)
  moreover have "fire call i v2 = connectSSE call (ArgString u) v'"
    using il ti by (simp add: fire_def v'_def)
  moreover have "sources v' = sources v2" by (simp add: v'_def)
  ultimately have f: "\<exists>tr2 h url w2.
      fire call (length (timers w0)) v2 = (None, tr2 @ [New h url], w2)
         \<and> length (sources v2) \<le> h \<and> eventSource w2 = Some h \<and> live h w2
         \<and> es_user (sources w2 ! h) = u"
    by (auto simp add: i_def)
  from go have g: "eventSource v1 = Some h1 \<and> live h1 v1 \<longrightarrow>
          transport_calls tr = [Close h1] \<and> \<not> live h1 w1 \<and> eventSource w1 \<noteq> Some h1
          \<and> \<not> isConnected w1"
    by blast
  from pending have pd: "take (Suc (length (timers w0))) (timers v2)
      = timers w0 @ [(reconnectDelay w0, u)]"
    by (simp add: i_def)
  show ?thesis
    by (rule conjI [OF tw conjI [OF x conjI [OF g conjI [OF t conjI [OF any conjI [OF pd f]]]]]])
qed

text \<open>
  A client whose subscriber of \<open>error\<close> reconnects at once: after a transport error
  it holds EventSource 1 and a reconnect is pending. A message arrives;
  \<open>disconnectSSE()\<close> closes EventSource 1 and leaves the reconnect pending; the
  application subscribes a function; the reconnect fires, EventSource 2 is created,
  and the client holds it, open.
\<close>

theorem disconnect_keeps_reconnect_pending_witness:
  "live 0 listening \<and> timers listening = []
   \<and> timers failed = [(10, ''u1'')]
   \<and> no_timer_fires [Signal 1 (Message ''ping'')]
   \<and> eventSource waiting = Some 1 \<and> live 1 waiting
   \<and> transport_calls (fst (snd (disconnectSSE (program reconnecting 2) waiting))) = [Close 1]
   \<and> \<not> live 1 hung_up \<and> eventSource hung_up = None \<and> \<not> isConnected hung_up
   \<and> timers hung_up = [(10, ''u1'')]
   \<and> no_timer_fires [On ''connected'' 7]
   \<and> timers resting = [(10, ''u1'')]
   \<and> fire (program reconnecting 2) 0 resting
       = (None, [New 2 ''http://localhost:8000/sse/notifications/u1/?token=tok''],
          snd (snd (fire (program reconnecting 2) 0 resting)))
   \<and> eventSource (snd (snd (fire (program reconnecting 2) 0 resting))) = Some 2
   \<and> live 2 (snd (snd (fire (program reconnecting 2) 0 resting)))"
proof -
  have l: "live 0 listening" by code_simp
  have c: "reconnectAttempts listening < maxReconnectAttempts listening" by code_simp
  have u: "es_user (sources listening ! 0) = ''u1''" by code_simp
  have ne: "''u1'' \<noteq> []" by simp
  have p: "truthy (profileToken listening)" by code_simp
  have n: "timers listening = []" by code_simp
  have f: "deliver (program reconnecting 2) unparseable 0 (Failed JNull) listening
      = (None, fst (snd (deliver (program reconnecting 2) unparseable 0 (Failed JNull)
           listening)), failed)"
    by code_simp
  have n1: "no_timer_fires [Signal 1 (Message ''ping'')]" by code_simp
  have n2: "no_timer_fires [On ''connected'' 7]" by code_simp
  have d: "disconnectSSE (program reconnecting 2) waiting
      = (fst (disconnectSSE (program reconnecting 2) waiting),
         fst (snd (disconnectSSE (program reconnecting 2) waiting)), hung_up)"
    by (simp add: hung_up_def)
  have h: "eventSource waiting = Some 1" by code_simp
  have o: "live 1 waiting" by code_simp
  have e: "eventSource hung_up = None" by code_simp
  have r: "reconnectDelay listening = 10" by code_simp
  have tr: "timers resting = [(10, ''u1'')]" by code_simp
  have g: "fire (program reconnecting 2) 0 resting
       = (None, [New 2 ''http://localhost:8000/sse/notifications/u1/?token=tok''],
          snd (snd (fire (program reconnecting 2) 0 resting)))"
    by code_simp
  have s: "eventSource (snd (snd (fire (program reconnecting 2) 0 resting))) = Some 2"
    by code_simp
  have th: "timers hung_up = [(10, ''u1'')]" by code_simp
  note t = disconnect_keeps_reconnect_pending [OF program_reserved program_orderly l c u ne p f
      n1 waiting_def d n2 resting_def, of 1]
  from t n r have t1: "timers failed = [(10, ''u1'')]" by simp
  from t h o have t2: "transport_calls (fst (snd (disconnectSSE (program reconnecting 2) waiting)))
      = [Close 1]" "\<not> live 1 hung_up" "\<not> isConnected hung_up"
    by blast+
  from t obtain tr2 h' url w2 where
    "fire (program reconnecting 2) (length (timers listening)) resting
      = (None, tr2 @ [New h' url], w2)" "live h' w2"
    by blast
  with n g have "live 2 (snd (snd (fire (program reconnecting 2) 0 resting)))"
    by simp
  with l n t1 n1 h o t2 e th n2 tr g s show ?thesis by blast
qed

text \<open>
  C1 as stated fails: after \<open>connectSSE()\<close>, a transport error and
  \<open>disconnectSSE()\<close>, the reconnect is still pending, and when its delay has elapsed
  it creates EventSource 1, which the client then holds open.
\<close>

theorem pending_reconnect_fires_after_disconnect:
  "timers errored = [(5000, ''u1'')]
   \<and> stopped = snd (snd (step idle unparseable Disconnect errored))
   \<and> eventSource stopped = None
   \<and> transport_calls (fst (snd (step idle unparseable (Timeout 0) stopped)))
       = [New 1 ''http://localhost:8000/sse/notifications/u1/?token=tok'']
   \<and> eventSource (snd (snd (step idle unparseable (Timeout 0) stopped))) = Some 1
   \<and> live 1 (snd (snd (step idle unparseable (Timeout 0) stopped)))"
  by code_simp

subsection \<open>Zero in the configuration\<close>

text \<open>
  C6 does not hold of the code: the constructor takes \<open>maxReconnectAttempts\<close> and
  \<open>reconnectDelay\<close> with \<open>||\<close>, so 0 becomes 10 attempts and 5000 milliseconds,
  and the first transport error of a client constructed with both 0 schedules a
  reconnect after 5000 milliseconds.
\<close>

theorem zero_options_fall_back_to_defaults:
  "maxReconnectAttempts (HermesClient (config\<lparr>cfg_maxReconnectAttempts := Some 0\<rparr>)) = 10
   \<and> reconnectDelay (HermesClient (config\<lparr>cfg_reconnectDelay := Some 0\<rparr>)) = 5000
   \<and> scheduled (fst (snd (step idle unparseable (Signal 0 (Failed JNull))
        (run idle unparseable [Connect ArgUndefined]
          (HermesClient (receiver\<lparr>cfg_reconnectDelay := Some 0,
             cfg_maxReconnectAttempts := Some 0\<rparr>))))))
      = [(5000, ''u1'')]"
proof (intro conjI)
  show "maxReconnectAttempts (HermesClient (config\<lparr>cfg_maxReconnectAttempts := Some 0\<rparr>)) = 10"
    by (simp add: HermesClient_def or_number_def)
  show "reconnectDelay (HermesClient (config\<lparr>cfg_reconnectDelay := Some 0\<rparr>)) = 5000"
    by (simp add: HermesClient_def or_number_def)
  show "scheduled (fst (snd (step idle unparseable (Signal 0 (Failed JNull))
        (run idle unparseable [Connect ArgUndefined]
          (HermesClient (receiver\<lparr>cfg_reconnectDelay := Some 0,
             cfg_maxReconnectAttempts := Some 0\<rparr>))))))
      = [(5000, ''u1'')]"
    by code_simp
qed

end
